theory Spec2Isabelle
  imports Main "HOL-Library.Word"
begin

section \<open>The Windows monitor of libfswatch (windows\_monitor.cpp)\<close>

text \<open>
  The monitor watches directories through ReadDirectoryChangesW with overlapped I/O.
  Everything the operating system decides is an input of the model (the answers of
  CreateFileW, malloc, ReadDirectoryChangesW, GetOverlappedResult, ResetEvent,
  WideCharToMultiByte, CreateEvent and cygwin\_create\_path); everything the program does
  to the outside is recorded (the calls that open, close, read and reset handles, and the
  lines written to cout and cerr). Diagnostics written through libfsw\_logv and wcerr are
  left out.
\<close>

subsection \<open>Machine types and constants of the platform headers\<close>

type_synonym DWORD = "32 word"
type_synonym HANDLE = "64 word"
type_synonym wchar_t = "16 word"
type_synonym wstring = "wchar_t list"
type_synonym byte = "8 word"

text \<open>The constants below come from the platform headers (windows.h).\<close>

definition INVALID_HANDLE_VALUE :: HANDLE where
  "INVALID_HANDLE_VALUE = - 1"

definition nullptr :: HANDLE where
  "nullptr = 0"

definition FILE_ACTION_ADDED :: DWORD where
  "FILE_ACTION_ADDED = 1"

definition FILE_ACTION_REMOVED :: DWORD where
  "FILE_ACTION_REMOVED = 2"

definition FILE_ACTION_MODIFIED :: DWORD where
  "FILE_ACTION_MODIFIED = 3"

definition FILE_ACTION_RENAMED_OLD_NAME :: DWORD where
  "FILE_ACTION_RENAMED_OLD_NAME = 4"

definition FILE_ACTION_RENAMED_NEW_NAME :: DWORD where
  "FILE_ACTION_RENAMED_NEW_NAME = 5"

definition ERROR_IO_INCOMPLETE :: DWORD where
  "ERROR_IO_INCOMPLETE = 996"

definition ERROR_NOTIFY_ENUM_DIR :: DWORD where
  "ERROR_NOTIFY_ENUM_DIR = 1022"

text \<open>sizeof(wchar\_t) on this platform, and the backslash that separates path components.\<close>

definition sizeof_wchar_t :: nat where
  "sizeof_wchar_t = 2"

definition backslash :: wchar_t where
  "backslash = 92"

subsection \<open>The change-flag table and decode\_flags\<close>

text \<open>
  The event flags of the library that this file uses (the enumeration itself is declared
  in a header of the library).
\<close>

datatype fsw_event_flag = Created | Updated | Removed | Renamed | MovedFrom | MovedTo

record WindowsFlagType =
  action :: DWORD
  types :: "fsw_event_flag list"

definition create_flag_type_vector :: "WindowsFlagType list" where
  "create_flag_type_vector =
     [\<lparr>action = FILE_ACTION_ADDED, types = [Created]\<rparr>,
      \<lparr>action = FILE_ACTION_REMOVED, types = [Removed]\<rparr>,
      \<lparr>action = FILE_ACTION_MODIFIED, types = [Updated]\<rparr>,
      \<lparr>action = FILE_ACTION_RENAMED_OLD_NAME, types = [MovedFrom, Renamed]\<rparr>,
      \<lparr>action = FILE_ACTION_RENAMED_NEW_NAME, types = [MovedTo, Renamed]\<rparr>]"

definition event_flag_type :: "WindowsFlagType list" where
  "event_flag_type = create_flag_type_vector"

text \<open>
  decode\_flags collects the flags of every table row whose action equals the code in a
  std::set and returns the set's elements; the model returns the set.
\<close>

definition decode_flags :: "DWORD \<Rightarrow> fsw_event_flag set" where
  "decode_flags flag =
     fold (\<lambda>event_type evt_flags_set.
             if flag = action event_type
             then fold insert (types event_type) evt_flags_set
             else evt_flags_set)
          event_flag_type {}"

subsection \<open>Errors\<close>

text \<open>
  A libfsw\_exception thrown out of run ends the watch. Reading outside the notification
  buffer is undefined behaviour in the source; the model stops there with memory\_fault.
\<close>

datatype error = libfsw_exception string | memory_fault

subsection \<open>The notification buffer\<close>

text \<open>
  The buffer is a sequence of bytes. A FILE\_NOTIFY\_INFORMATION at byte offset p has the
  little-endian fields NextEntryOffset (p), Action (p + 4), FileNameLength (p + 8) and the
  wide characters of FileName from p + 12 on. run reads NextEntryOffset, FileNameLength and
  FileName; it does not read Action and does not call decode\_flags.
\<close>

fun le_nat :: "byte list \<Rightarrow> nat" where
  "le_nat [] = 0"
| "le_nat (b # bs) = unat b + 256 * le_nat bs"

definition read_DWORD :: "byte list \<Rightarrow> nat \<Rightarrow> DWORD option" where
  "read_DWORD buf p =
     (if p + 4 \<le> length buf then Some (of_nat (le_nat (take 4 (drop p buf)))) else None)"

definition read_wchar :: "byte list \<Rightarrow> nat \<Rightarrow> wchar_t option" where
  "read_wchar buf p =
     (if p + sizeof_wchar_t \<le> length buf
      then Some (of_nat (le_nat (take sizeof_wchar_t (drop p buf)))) else None)"

fun read_wstring :: "byte list \<Rightarrow> nat \<Rightarrow> nat \<Rightarrow> wstring option" where
  "read_wstring buf p 0 = Some []"
| "read_wstring buf p (Suc n) =
     (case read_wchar buf p of
        None \<Rightarrow> None
      | Some c \<Rightarrow>
          (case read_wstring buf (p + sizeof_wchar_t) n of
             None \<Rightarrow> None
           | Some cs \<Rightarrow> Some (c # cs)))"

definition NextEntryOffset :: "byte list \<Rightarrow> nat \<Rightarrow> DWORD option" where
  "NextEntryOffset buf p = read_DWORD buf p"

definition FileNameLength :: "byte list \<Rightarrow> nat \<Rightarrow> DWORD option" where
  "FileNameLength buf p = read_DWORD buf (p + 8)"

definition FileName :: "byte list \<Rightarrow> nat \<Rightarrow> nat \<Rightarrow> wstring option" where
  "FileName buf p n = read_wstring buf (p + 12) n"

text \<open>
  c\_str gives the characters before the first NUL: what a wide C string denotes. abs\_path
  is the path, a backslash and the name: the expression that builds the wstring abs\_path in run.
\<close>

definition c_str :: "wstring \<Rightarrow> wstring" where
  "c_str s = takeWhile (\<lambda>c. c \<noteq> 0) s"

definition abs_path :: "wstring \<Rightarrow> wstring \<Rightarrow> wstring" where
  "abs_path path name = path @ [backslash] @ name"

text \<open>
  The body of the while loop of run over curr\_entry, up to the output of one record: the
  record is skipped when FileNameLength is 0; otherwise its absolute path is converted by
  WideCharToMultiByte (an answer of the operating system, None when it returns 0) and
  written to cout, here the list out.
\<close>

definition run_entry ::
  "(wstring \<Rightarrow> string option) \<Rightarrow> wstring \<Rightarrow> byte list \<Rightarrow> nat \<Rightarrow> string list \<Rightarrow> error + string list"
where
  "run_entry WideCharToMultiByte path buf p out =
     (case FileNameLength buf p of
        None \<Rightarrow> Inl memory_fault
      | Some len \<Rightarrow>
          if len > 0 then
            (case FileName buf p (unat len div sizeof_wchar_t) of
               None \<Rightarrow> Inl memory_fault
             | Some name \<Rightarrow>
                 (case WideCharToMultiByte (c_str (abs_path path name)) of
                    None \<Rightarrow> Inl (libfsw_exception ''WideCharToMultiByte failed.'')
                  | Some u_string \<Rightarrow> Inr (out @ [u_string])))
          else Inr out)"

text \<open>
  The while loop: after each record, stop when NextEntryOffset is 0, else advance by it.
\<close>

function run_entries ::
  "(wstring \<Rightarrow> string option) \<Rightarrow> wstring \<Rightarrow> byte list \<Rightarrow> nat \<Rightarrow> string list \<Rightarrow> error + string list"
where
  "run_entries conv path buf p out =
     (case run_entry conv path buf p out of
        Inl e \<Rightarrow> Inl e
      | Inr out' \<Rightarrow>
          (case NextEntryOffset buf p of
             None \<Rightarrow> Inl memory_fault
           | Some off \<Rightarrow>
               if off = 0 then Inr out'
               else run_entries conv path buf (p + unat off) out'))"
  by pat_completeness auto
termination
proof (relation "measure (\<lambda>(conv, path, buf, p, out). length buf - p)")
  show "wf (measure (\<lambda>(conv, path, buf, p, out). length buf - p))" by simp
next
  fix conv :: "wstring \<Rightarrow> string option" and path :: wstring and buf :: "byte list"
    and p :: nat and out out' :: "string list" and off :: DWORD
  assume "NextEntryOffset buf p = Some off" and "off \<noteq> 0"
  then have "p + 4 \<le> length buf" and "0 < unat off"
    by (auto simp add: NextEntryOffset_def read_DWORD_def unat_gt_0 split: if_splits)
  then show "((conv, path, buf, p + unat off, out'), (conv, path, buf, p, out))
      \<in> measure (\<lambda>(conv, path, buf, p, out). length buf - p)"
    by simp
qed

declare run_entries.simps [simp del]

subsection \<open>Buffers as the operating system fills them\<close>

text \<open>
  A notification record has an action code and a name; the operating system may pad it
  (rec\_pad) before the next record. encode\_records lays a list of records out the way
  ReadDirectoryChangesW does: every record but the last stores its own size as
  NextEntryOffset, the last one stores 0. These definitions state which buffers are
  well formed; the program does not contain them.
\<close>

fun le_bytes :: "nat \<Rightarrow> nat \<Rightarrow> byte list" where
  "le_bytes 0 n = []"
| "le_bytes (Suc k) n = of_nat (n mod 256) # le_bytes k (n div 256)"

record notify_record =
  rec_action :: DWORD
  rec_name :: wstring
  rec_pad :: "byte list"

definition wstring_bytes :: "wstring \<Rightarrow> byte list" where
  "wstring_bytes s = concat (map (\<lambda>c. le_bytes 2 (unat c)) s)"

definition record_size :: "notify_record \<Rightarrow> nat" where
  "record_size r = 12 + 2 * length (rec_name r) + length (rec_pad r)"

definition record_bytes :: "bool \<Rightarrow> notify_record \<Rightarrow> byte list" where
  "record_bytes is_last r =
     le_bytes 4 (if is_last then 0 else record_size r)
     @ le_bytes 4 (unat (rec_action r))
     @ le_bytes 4 (2 * length (rec_name r))
     @ wstring_bytes (rec_name r) @ rec_pad r"

fun encode_records :: "notify_record list \<Rightarrow> byte list" where
  "encode_records [] = []"
| "encode_records [r] = record_bytes True r"
| "encode_records (r # rs) = record_bytes False r @ encode_records rs"

text \<open>
  The lines the records with a non-empty name stand for, in the order of the records, and
  the same computed record by record with the failure of a conversion.
\<close>

definition expected_lines ::
  "(wstring \<Rightarrow> string option) \<Rightarrow> wstring \<Rightarrow> notify_record list \<Rightarrow> string list" where
  "expected_lines conv path recs =
     map (\<lambda>r. the (conv (c_str (abs_path path (rec_name r)))))
       (filter (\<lambda>r. rec_name r \<noteq> []) recs)"

fun emit_records ::
  "(wstring \<Rightarrow> string option) \<Rightarrow> wstring \<Rightarrow> notify_record list \<Rightarrow> string list \<Rightarrow> error + string list"
where
  "emit_records conv path [] out = Inr out"
| "emit_records conv path (r # rs) out =
     (if rec_name r = [] then emit_records conv path rs out
      else case conv (c_str (abs_path path (rec_name r))) of
             None \<Rightarrow> Inl (libfsw_exception ''WideCharToMultiByte failed.'')
           | Some u \<Rightarrow> emit_records conv path rs (out @ [u]))"

subsection \<open>Calls into the operating system\<close>

datatype os_call =
    CreateFileW wstring
  | CloseHandle HANDLE
  | ReadDirectoryChangesW HANDLE
  | GetOverlappedResult HANDLE
  | ResetEvent HANDLE
  | CreateEvent

subsection \<open>CHandle\<close>

text \<open>
  A CHandle holds one raw handle h. Each operation takes the calls made so far and returns
  them extended by the CloseHandle it makes. CHandle\_move is the move constructor and
  CHandle\_move\_assign the move assignment between two different objects: both return
  the new value of this and of other.
\<close>

record CHandle =
  h :: HANDLE

definition is_valid :: "HANDLE \<Rightarrow> bool" where
  "is_valid handle \<longleftrightarrow> handle \<noteq> INVALID_HANDLE_VALUE \<and> handle \<noteq> nullptr"

definition CHandle_default :: CHandle where
  "CHandle_default = \<lparr>h = INVALID_HANDLE_VALUE\<rparr>"

definition CHandle_from :: "HANDLE \<Rightarrow> CHandle" where
  "CHandle_from handle = \<lparr>h = handle\<rparr>"

definition CHandle_destroy :: "CHandle \<Rightarrow> os_call list \<Rightarrow> os_call list" where
  "CHandle_destroy this calls =
     (if is_valid (h this) then calls @ [CloseHandle (h this)] else calls)"

definition CHandle_assign :: "CHandle \<Rightarrow> HANDLE \<Rightarrow> os_call list \<Rightarrow> CHandle \<times> os_call list" where
  "CHandle_assign this handle calls =
     (this\<lparr>h := handle\<rparr>,
      if is_valid (h this) then calls @ [CloseHandle (h this)] else calls)"

definition CHandle_move :: "CHandle \<Rightarrow> CHandle \<times> CHandle" where
  "CHandle_move other = (\<lparr>h = h other\<rparr>, other\<lparr>h := INVALID_HANDLE_VALUE\<rparr>)"

definition CHandle_move_assign ::
  "CHandle \<Rightarrow> CHandle \<Rightarrow> os_call list \<Rightarrow> (CHandle \<times> CHandle) \<times> os_call list" where
  "CHandle_move_assign this other calls =
     ((this\<lparr>h := h other\<rparr>, other\<lparr>h := INVALID_HANDLE_VALUE\<rparr>),
      if is_valid (h this) then calls @ [CloseHandle (h this)] else calls)"

subsection \<open>CHandle objects in memory\<close>

text \<open>
  The move assignment of CHandle compares the addresses of its two operands, so the
  lifetime of the wrappers is modelled over objects at addresses: a store of the live
  CHandle objects and the calls made so far. An operation on an object that is not alive,
  or a construction over a live object, has no meaning (None). MoveAssign a a is the
  self-assignment, which returns at once.
\<close>

record CHandle_store =
  objects :: "nat \<rightharpoonup> CHandle"
  os_calls :: "os_call list"

datatype CHandle_op =
    Construct nat
  | ConstructFrom nat HANDLE
  | Destroy nat
  | AssignHandle nat HANDLE
  | MoveConstruct nat nat
  | MoveAssign nat nat

fun apply_op :: "CHandle_op \<Rightarrow> CHandle_store \<Rightarrow> CHandle_store option" where
  "apply_op (Construct a) s =
     (case objects s a of
        Some _ \<Rightarrow> None
      | None \<Rightarrow> Some (s\<lparr>objects := (objects s)(a \<mapsto> CHandle_default)\<rparr>))"
| "apply_op (ConstructFrom a raw) s =
     (case objects s a of
        Some _ \<Rightarrow> None
      | None \<Rightarrow> Some (s\<lparr>objects := (objects s)(a \<mapsto> CHandle_from raw)\<rparr>))"
| "apply_op (Destroy a) s =
     (case objects s a of
        None \<Rightarrow> None
      | Some this \<Rightarrow>
          Some (s\<lparr>objects := (objects s)(a := None),
                  os_calls := CHandle_destroy this (os_calls s)\<rparr>))"
| "apply_op (AssignHandle a raw) s =
     (case objects s a of
        None \<Rightarrow> None
      | Some this \<Rightarrow>
          (let (this', calls') = CHandle_assign this raw (os_calls s)
           in Some (s\<lparr>objects := (objects s)(a \<mapsto> this'), os_calls := calls'\<rparr>)))"
| "apply_op (MoveConstruct a b) s =
     (case objects s a of
        Some _ \<Rightarrow> None
      | None \<Rightarrow>
          (case objects s b of
             None \<Rightarrow> None
           | Some other \<Rightarrow>
               (let (this', other') = CHandle_move other
                in Some (s\<lparr>objects := (objects s)(a \<mapsto> this', b \<mapsto> other')\<rparr>))))"
| "apply_op (MoveAssign a b) s =
     (case objects s a of
        None \<Rightarrow> None
      | Some this \<Rightarrow>
          (case objects s b of
             None \<Rightarrow> None
           | Some other \<Rightarrow>
               if a = b then Some s
               else
                 (let ((this', other'), calls') = CHandle_move_assign this other (os_calls s)
                  in Some (s\<lparr>objects := (objects s)(a \<mapsto> this', b \<mapsto> other'),
                            os_calls := calls'\<rparr>))))"

fun apply_ops :: "CHandle_op list \<Rightarrow> CHandle_store \<Rightarrow> CHandle_store option" where
  "apply_ops [] s = Some s"
| "apply_ops (op # ops) s =
     (case apply_op op s of
        None \<Rightarrow> None
      | Some s' \<Rightarrow> apply_ops ops s')"

definition no_objects :: CHandle_store where
  "no_objects = \<lparr>objects = Map.empty, os_calls = []\<rparr>"

text \<open>
  Notions for the ownership property: the handles closed by a sequence of calls, the raw
  handles a sequence of operations hands to wrappers, holds s x (a live wrapper holds the
  valid handle x), sole s (no valid handle is held by two wrappers) and the invariant
  owned s G: of the valid handles G given so far, each is either held or closed, never
  both and never closed twice.
\<close>

fun closed_handles :: "os_call list \<Rightarrow> HANDLE list" where
  "closed_handles [] = []"
| "closed_handles (CloseHandle x # cs) = x # closed_handles cs"
| "closed_handles (c # cs) = closed_handles cs"

fun given_handles :: "CHandle_op list \<Rightarrow> HANDLE list" where
  "given_handles [] = []"
| "given_handles (ConstructFrom a x # ops) = x # given_handles ops"
| "given_handles (AssignHandle a x # ops) = x # given_handles ops"
| "given_handles (op # ops) = given_handles ops"

definition holds :: "CHandle_store \<Rightarrow> HANDLE \<Rightarrow> bool" where
  "holds s x \<longleftrightarrow> is_valid x \<and> (\<exists>a. objects s a = Some \<lparr>h = x\<rparr>)"

definition sole :: "CHandle_store \<Rightarrow> bool" where
  "sole s \<longleftrightarrow>
     (\<forall>a b x. objects s a = Some \<lparr>h = x\<rparr> \<longrightarrow> objects s b = Some \<lparr>h = x\<rparr>
        \<longrightarrow> is_valid x \<longrightarrow> a = b)"

definition owned :: "CHandle_store \<Rightarrow> HANDLE set \<Rightarrow> bool" where
  "owned s G \<longleftrightarrow>
     distinct (closed_handles (os_calls s))
     \<and> (\<forall>x. holds s x \<longrightarrow> x \<notin> set (closed_handles (os_calls s)))
     \<and> (\<forall>x. x \<in> G \<longleftrightarrow> holds s x \<or> x \<in> set (closed_handles (os_calls s)))
     \<and> sole s"

subsection \<open>DirectoryChangeEvent\<close>

text \<open>
  The session of one path: the directory handle, the notification buffer (its bytes as the
  operating system last left them) and the event handle stored in the OVERLAPPED structure.
  malloc answers None for nullptr and otherwise the indeterminate contents of the fresh
  block. The constructor tests the buffer first, then the OVERLAPPED block.
\<close>

record DirectoryChangeEvent =
  handle :: CHandle
  buffer_size :: nat
  bytes_returned :: DWORD
  buffer :: "byte list"
  overlapped_hEvent :: HANDLE

definition sizeof_FILE_NOTIFY_INFORMATION :: nat where
  "sizeof_FILE_NOTIFY_INFORMATION = 16"

definition DirectoryChangeEvent_new ::
  "HANDLE option \<Rightarrow> byte list option \<Rightarrow> nat \<Rightarrow> error + DirectoryChangeEvent" where
  "DirectoryChangeEvent_new malloc_OVERLAPPED malloc_buffer buffer_length =
     (case malloc_buffer of
        None \<Rightarrow> Inl (libfsw_exception ''::malloc failed.'')
      | Some bytes \<Rightarrow>
          (case malloc_OVERLAPPED of
             None \<Rightarrow> Inl (libfsw_exception ''::malloc failed.'')
           | Some ev \<Rightarrow>
               Inr \<lparr>handle = CHandle_from INVALID_HANDLE_VALUE,
                    buffer_size = sizeof_FILE_NOTIFY_INFORMATION * buffer_length,
                    bytes_returned = 0,
                    buffer = bytes,
                    overlapped_hEvent = ev\<rparr>))"

subsection \<open>The monitor and the answers of the operating system\<close>

text \<open>
  windows\_monitor holds the paths given to the monitor, the three containers of
  windows\_monitor\_load (win\_paths in the order of iteration), and what the process has
  done so far: the calls made and the lines written to cout and cerr.
\<close>

record windows_monitor =
  paths :: "string list"
  win_paths :: "wstring list"
  dce_by_path :: "wstring \<rightharpoonup> DirectoryChangeEvent"
  event_by_path :: "wstring \<rightharpoonup> CHandle"
  calls :: "os_call list"
  cout :: "string list"
  cerr :: "string list"

text \<open>
  What the operating system answers while the loop of run handles one path once:
  the handle CreateFileW returns, the two malloc calls of DirectoryChangeEvent(128), the
  result of the first ReadDirectoryChangesW, the two malloc calls of the element that
  dce\_by\_path[path] creates, GetOverlappedResult (Inl the value of GetLastError when it
  fails, Inr the byte count and the bytes of the buffer when it succeeds),
  WideCharToMultiByte, ResetEvent and the next ReadDirectoryChangesW.
\<close>

record os_answers =
  CreateFileW_ret :: HANDLE
  malloc_OVERLAPPED :: "HANDLE option"
  malloc_buffer :: "byte list option"
  ReadDirectoryChangesW_first :: bool
  slot_malloc_OVERLAPPED :: "HANDLE option"
  slot_malloc_buffer :: "byte list option"
  GetOverlappedResult_ret :: "DWORD + DWORD \<times> byte list"
  WideCharToMultiByte :: "wstring \<Rightarrow> string option"
  ResetEvent_ret :: bool
  ReadDirectoryChangesW_next :: bool

subsection \<open>init\_search\_for\_path and stop\_search\_for\_path\<close>

text \<open>
  An early return false destroys the local dce, whose CHandle closes the directory handle.
  event\_by\_path[path] inserts a default CHandle when the path has no event.
  dce\_by\_path[path] = std::move(dce) creates the element when it is missing and moves dce
  into it member by member; the moved-from dce is destroyed at the end of the function.
\<close>

definition init_search_for_path ::
  "os_answers \<Rightarrow> wstring \<Rightarrow> windows_monitor \<Rightarrow> error + bool \<times> windows_monitor" where
  "init_search_for_path os path s =
     (let handle0 = CreateFileW_ret os;
          s0 = s\<lparr>calls := calls s @ [CreateFileW path]\<rparr>
      in if \<not> is_valid handle0 then Inr (False, s0)
         else
           case DirectoryChangeEvent_new (malloc_OVERLAPPED os) (malloc_buffer os) 128 of
             Inl e \<Rightarrow> Inl e
           | Inr dce0 \<Rightarrow>
               let (dir, calls1) = CHandle_assign (handle dce0) handle0 (calls s0);
                   events = (case event_by_path s0 path of
                               None \<Rightarrow> (event_by_path s0)(path \<mapsto> CHandle_default)
                             | Some _ \<Rightarrow> event_by_path s0);
                   dce = dce0\<lparr>handle := dir, overlapped_hEvent := h (the (events path))\<rparr>;
                   s1 = s0\<lparr>event_by_path := events,
                           calls := calls1 @ [ReadDirectoryChangesW (h (handle dce))]\<rparr>
               in if \<not> ReadDirectoryChangesW_first os
                  then Inr (False, s1\<lparr>calls := CHandle_destroy (handle dce) (calls s1)\<rparr>)
                  else
                    case (case dce_by_path s1 path of
                            None \<Rightarrow> DirectoryChangeEvent_new (slot_malloc_OVERLAPPED os)
                                      (slot_malloc_buffer os) 16
                          | Some slot \<Rightarrow> Inr slot) of
                      Inl e \<Rightarrow> Inl e
                    | Inr slot \<Rightarrow>
                        let ((dir', moved), calls2) =
                              CHandle_move_assign (handle slot) (handle dce) (calls s1)
                        in Inr (True,
                             s1\<lparr>dce_by_path := (dce_by_path s1)(path \<mapsto> dce\<lparr>handle := dir'\<rparr>),
                                calls := CHandle_destroy moved calls2\<rparr>))"

definition stop_search_for_path :: "wstring \<Rightarrow> windows_monitor \<Rightarrow> windows_monitor" where
  "stop_search_for_path path s =
     (case dce_by_path s path of
        None \<Rightarrow> s
      | Some dce \<Rightarrow>
          s\<lparr>dce_by_path := (dce_by_path s)(path := None),
            calls := CHandle_destroy (handle dce) (calls s)\<rparr>)"

subsection \<open>run\<close>

text \<open>
  run\_poll is the loop body of run from GetOverlappedResult on, for the session dce of
  path; run\_path is the whole loop body for one path.
\<close>

definition run_poll ::
  "os_answers \<Rightarrow> wstring \<Rightarrow> DirectoryChangeEvent \<Rightarrow> windows_monitor \<Rightarrow> error + windows_monitor" where
  "run_poll os path dce s =
     (let s1 = s\<lparr>calls := calls s @ [GetOverlappedResult (h (handle dce))]\<rparr>
      in case GetOverlappedResult_ret os of
           Inl err \<Rightarrow>
             if err = ERROR_IO_INCOMPLETE then Inr s1
             else
               Inr (stop_search_for_path path
                      (if err = ERROR_NOTIFY_ENUM_DIR
                       then s1\<lparr>cerr := cerr s1 @ [''Overflow.'']\<rparr> else s1))
         | Inr (n, bytes) \<Rightarrow>
             let dce1 = dce\<lparr>bytes_returned := n, buffer := bytes\<rparr>;
                 s2 = s1\<lparr>dce_by_path := (dce_by_path s1)(path \<mapsto> dce1)\<rparr>
             in case (if bytes_returned dce1 = 0
                      then Inr (s2\<lparr>cerr := cerr s2 @ [''The current buffer is too small.'']\<rparr>)
                      else
                        case run_entries (WideCharToMultiByte os) path (buffer dce1) 0 (cout s2) of
                          Inl e \<Rightarrow> Inl e
                        | Inr out \<Rightarrow> Inr (s2\<lparr>cout := out\<rparr>)) of
                  Inl e \<Rightarrow> Inl e
                | Inr s3 \<Rightarrow>
                    let s4 = s3\<lparr>calls := calls s3 @ [ResetEvent (overlapped_hEvent dce1)]\<rparr>
                    in if \<not> ResetEvent_ret os
                       then Inl (libfsw_exception ''::ResetEvent failed.'')
                       else
                         let s5 = s4\<lparr>calls := calls s4 @ [ReadDirectoryChangesW (h (handle dce1))]\<rparr>
                         in if \<not> ReadDirectoryChangesW_next os
                            then Inr (stop_search_for_path path s5)
                            else Inr s5)"

definition run_path :: "os_answers \<Rightarrow> wstring \<Rightarrow> windows_monitor \<Rightarrow> error + windows_monitor" where
  "run_path os path s =
     (case (case dce_by_path s path of
              None \<Rightarrow> init_search_for_path os path s
            | Some _ \<Rightarrow> Inr (True, s)) of
        Inl e \<Rightarrow> Inl e
      | Inr (ok, s1) \<Rightarrow>
          if \<not> ok then Inr s1
          else
            case dce_by_path s1 path of
              None \<Rightarrow> Inl (libfsw_exception ''Initialization failed.'')
            | Some dce \<Rightarrow> run_poll os path dce s1)"

text \<open>
  run\_paths is the for loop over win\_paths (one tick) and run\_loop the enclosing
  while (true), which only ends by an exception: fuel bounds the number of ticks the model
  follows, and Inr is the state after that many ticks. The sleep is left out.
\<close>

fun run_paths ::
  "(wstring \<Rightarrow> os_answers) \<Rightarrow> wstring list \<Rightarrow> windows_monitor \<Rightarrow> error + windows_monitor" where
  "run_paths os [] s = Inr s"
| "run_paths os (path # rest) s =
     (case run_path (os path) path s of
        Inl e \<Rightarrow> Inl e
      | Inr s' \<Rightarrow> run_paths os rest s')"

fun run_loop ::
  "(nat \<Rightarrow> wstring \<Rightarrow> os_answers) \<Rightarrow> nat \<Rightarrow> nat \<Rightarrow> windows_monitor \<Rightarrow> error + windows_monitor" where
  "run_loop os 0 tick s = Inr s"
| "run_loop os (Suc fuel) tick s =
     (case run_paths (os tick) (win_paths s) s of
        Inl e \<Rightarrow> Inl e
      | Inr s' \<Rightarrow> run_loop os fuel (Suc tick) s')"

text \<open>
  The start of run: the native path of every path (None when cygwin\_create\_path returns
  nullptr) and one event per native path (CreateEvent returns nullptr on failure).
\<close>

record os_startup =
  cygwin_create_path :: "string \<Rightarrow> wstring option"
  CreateEvent_ret :: "wstring \<Rightarrow> HANDLE"

fun initialize_windows_path_list ::
  "os_startup \<Rightarrow> string list \<Rightarrow> windows_monitor \<Rightarrow> error + windows_monitor" where
  "initialize_windows_path_list st [] s = Inr s"
| "initialize_windows_path_list st (path # rest) s =
     (case cygwin_create_path st path of
        None \<Rightarrow> Inl (libfsw_exception ''cygwin_create_path could not allocate memory.'')
      | Some raw_path \<Rightarrow>
          initialize_windows_path_list st rest
            (s\<lparr>win_paths := (if c_str raw_path \<in> set (win_paths s) then win_paths s
                              else win_paths s @ [c_str raw_path])\<rparr>))"

fun initialize_events ::
  "os_startup \<Rightarrow> wstring list \<Rightarrow> windows_monitor \<Rightarrow> error + windows_monitor" where
  "initialize_events st [] s = Inr s"
| "initialize_events st (path # rest) s =
     (let hEvent = CreateEvent_ret st path;
          s1 = s\<lparr>calls := calls s @ [CreateEvent]\<rparr>
      in if hEvent = nullptr then Inl (libfsw_exception ''CreateEvent failed.'')
         else initialize_events st rest
                (case event_by_path s1 path of
                   None \<Rightarrow> s1\<lparr>event_by_path := (event_by_path s1)(path \<mapsto> CHandle_from hEvent)\<rparr>
                 | Some _ \<Rightarrow> s1\<lparr>calls := CHandle_destroy (CHandle_from hEvent) (calls s1)\<rparr>))"

definition windows_monitor_new :: "string list \<Rightarrow> windows_monitor" where
  "windows_monitor_new paths_to_monitor =
     \<lparr>paths = paths_to_monitor, win_paths = [], dce_by_path = Map.empty,
      event_by_path = Map.empty, calls = [], cout = [], cerr = []\<rparr>"

definition run ::
  "os_startup \<Rightarrow> (nat \<Rightarrow> wstring \<Rightarrow> os_answers) \<Rightarrow> nat \<Rightarrow> windows_monitor \<Rightarrow> error + windows_monitor" where
  "run st os fuel s =
     (case initialize_windows_path_list st (paths s) s of
        Inl e \<Rightarrow> Inl e
      | Inr s1 \<Rightarrow>
          (case initialize_events st (win_paths s1) s1 of
             Inl e \<Rightarrow> Inl e
           | Inr s2 \<Rightarrow> run_loop os fuel 0 s2))"

subsection \<open>A sample conversion\<close>

text \<open>
  WideCharToMultiByte on 7-bit text, where UTF-16 and UTF-8 agree; it fails elsewhere. It
  serves to evaluate the model on examples.
\<close>

definition narrow :: "wstring \<Rightarrow> string option" where
  "narrow w = (if list_all (\<lambda>c. c < 128) w then Some (map (\<lambda>c. char_of (unat c)) w) else None)"

subsection \<open>Auxiliary notions for the properties\<close>

text \<open>
  opens os: the operating system lets init\_search\_for\_path succeed (the directory opens,
  every malloc succeeds and the first read is issued).
\<close>

definition opens :: "os_answers \<Rightarrow> bool" where
  "opens os \<longleftrightarrow>
     is_valid (CreateFileW_ret os) \<and> malloc_OVERLAPPED os \<noteq> None \<and> malloc_buffer os \<noteq> None
     \<and> ReadDirectoryChangesW_first os
     \<and> slot_malloc_OVERLAPPED os \<noteq> None \<and> slot_malloc_buffer os \<noteq> None"

text \<open>
  An example: the monitor of the single path C: after its start, with a watched session
  for it (directory handle 7, event handle 5), and an operating system that lets every
  call succeed and reports the pending read as incomplete.
\<close>

definition example_path :: wstring where
  "example_path = [67, 58]"

definition example_os :: os_answers where
  "example_os =
     \<lparr>CreateFileW_ret = 7, malloc_OVERLAPPED = Some 0, malloc_buffer = Some [],
      ReadDirectoryChangesW_first = True,
      slot_malloc_OVERLAPPED = Some 0, slot_malloc_buffer = Some [],
      GetOverlappedResult_ret = Inl ERROR_IO_INCOMPLETE,
      WideCharToMultiByte = narrow, ResetEvent_ret = True,
      ReadDirectoryChangesW_next = True\<rparr>"

definition example_session :: DirectoryChangeEvent where
  "example_session =
     \<lparr>handle = CHandle_from 7, buffer_size = 2048, bytes_returned = 0, buffer = [],
      overlapped_hEvent = 5\<rparr>"

definition example_monitor :: windows_monitor where
  "example_monitor =
     \<lparr>paths = [''C:''], win_paths = [example_path],
      dce_by_path = [example_path \<mapsto> example_session],
      event_by_path = [example_path \<mapsto> CHandle_from 5],
      calls = [], cout = [], cerr = []\<rparr>"

text \<open>
  Three records for the file a.txt (added, modified, removed), and a record without a name.
\<close>

definition example_records :: "notify_record list" where
  "example_records =
     [\<lparr>rec_action = FILE_ACTION_ADDED, rec_name = [97, 46, 116, 120, 116], rec_pad = [0, 0]\<rparr>,
      \<lparr>rec_action = FILE_ACTION_MODIFIED, rec_name = [97, 46, 116, 120, 116], rec_pad = [0, 0]\<rparr>,
      \<lparr>rec_action = FILE_ACTION_REMOVED, rec_name = [97, 46, 116, 120, 116], rec_pad = [0, 0]\<rparr>]"

definition unnamed_record :: notify_record where
  "unnamed_record = \<lparr>rec_action = FILE_ACTION_MODIFIED, rec_name = [], rec_pad = [0, 0, 0, 0]\<rparr>"

text \<open>
  A record whose name (one character beyond 7-bit text) the sample conversion rejects.
\<close>

definition unconvertible_record :: notify_record where
  "unconvertible_record = \<lparr>rec_action = FILE_ACTION_ADDED, rec_name = [233], rec_pad = [0, 0]\<rparr>"

text \<open>
  allocation\_fails: the path has no session, its directory opens, and a malloc of
  init\_search\_for\_path returns nullptr (the two of the element of dce\_by\_path are only
  reached when the first read was issued). polled: the loop reaches GetOverlappedResult
  for the path. loop\_fatal: the messages of the exceptions thrown inside the loop.
\<close>

definition allocation_fails :: "os_answers \<Rightarrow> wstring \<Rightarrow> windows_monitor \<Rightarrow> bool" where
  "allocation_fails os path s \<longleftrightarrow>
     dce_by_path s path = None \<and> is_valid (CreateFileW_ret os)
     \<and> (malloc_buffer os = None \<or> malloc_OVERLAPPED os = None
          \<or> (ReadDirectoryChangesW_first os
               \<and> (slot_malloc_buffer os = None \<or> slot_malloc_OVERLAPPED os = None)))"

definition polled :: "os_answers \<Rightarrow> wstring \<Rightarrow> windows_monitor \<Rightarrow> bool" where
  "polled os path s \<longleftrightarrow> dce_by_path s path \<noteq> None \<or> opens os"

definition loop_fatal :: "string set" where
  "loop_fatal = {''::malloc failed.'', ''::ResetEvent failed.'', ''WideCharToMultiByte failed.''}"

text \<open>
  A start of run for the example, and a sequence of operations on wrappers at the
  addresses 0, 1 and 2.
\<close>

definition example_start :: os_startup where
  "example_start = \<lparr>cygwin_create_path = (\<lambda>p. Some example_path), CreateEvent_ret = (\<lambda>w. 5)\<rparr>"

definition example_ops :: "CHandle_op list" where
  "example_ops =
     [ConstructFrom 0 7, Construct 1, MoveAssign 1 0, Destroy 0, AssignHandle 1 9,
      MoveAssign 1 1, MoveConstruct 2 1, Destroy 1, Destroy 2]"

section \<open>Properties\<close>

lemmas example_defs =
  example_path_def example_os_def example_session_def example_monitor_def

subsection \<open>The change-flag table\<close>

lemmas action_codes =
  FILE_ACTION_ADDED_def FILE_ACTION_REMOVED_def FILE_ACTION_MODIFIED_def
  FILE_ACTION_RENAMED_OLD_NAME_def FILE_ACTION_RENAMED_NEW_NAME_def

text \<open>
  C3. The change-flag mapping sends Added to {Created}, Removed to {Removed}, Modified to
  {Updated}, RenamedOldName to {MovedFrom, Renamed}, RenamedNewName to {MovedTo, Renamed},
  and every other action code to the empty flag set.
\<close>

theorem decode_flags_table:
  "decode_flags a =
     (if a = FILE_ACTION_ADDED then {Created}
      else if a = FILE_ACTION_REMOVED then {Removed}
      else if a = FILE_ACTION_MODIFIED then {Updated}
      else if a = FILE_ACTION_RENAMED_OLD_NAME then {MovedFrom, Renamed}
      else if a = FILE_ACTION_RENAMED_NEW_NAME then {MovedTo, Renamed}
      else {})"
  by (auto simp add: decode_flags_def event_flag_type_def create_flag_type_vector_def
        action_codes)

theorem decode_flags_table_witness:
  "decode_flags 1 = {Created} \<and> decode_flags 2 = {Removed} \<and> decode_flags 3 = {Updated}
   \<and> decode_flags 4 = {MovedFrom, Renamed} \<and> decode_flags 5 = {MovedTo, Renamed}
   \<and> decode_flags 0 = {} \<and> decode_flags 6 = {}"
  using decode_flags_table [of 1] decode_flags_table [of 2] decode_flags_table [of 3]
    decode_flags_table [of 4] decode_flags_table [of 5] decode_flags_table [of 0]
    decode_flags_table [of 6]
  by (simp add: action_codes)

subsection \<open>Decoding the buffer\<close>

lemma length_le_bytes [simp]: "length (le_bytes k n) = k"
  by (induction k arbitrary: n) simp_all

lemma le_nat_le_bytes: "le_nat (le_bytes k n) = n mod 256 ^ k"
proof (induction k arbitrary: n)
  case 0
  show ?case by simp
next
  case (Suc k)
  have "unat (of_nat (n mod 256) :: byte) = n mod 256"
    by (simp add: unat_of_nat)
  then have "le_nat (le_bytes (Suc k) n) = n mod 256 + 256 * (n div 256 mod 256 ^ k)"
    by (simp add: Suc.IH)
  also have "\<dots> = n mod 256 ^ Suc k"
    by (simp add: mod_mult2_eq)
  finally show ?case .
qed

lemma take_drop_mid: "take (length ys) (drop (length xs) (xs @ ys @ zs)) = ys"
  by simp

lemma read_DWORD_le_bytes:
  "n < 2 ^ 32 \<Longrightarrow> read_DWORD (pre @ le_bytes 4 n @ rest) (length pre) = Some (of_nat n)"
  using take_drop_mid [of "le_bytes 4 n" pre rest]
  by (simp add: read_DWORD_def le_nat_le_bytes)

lemma read_wchar_le_bytes:
  "read_wchar (pre @ le_bytes 2 (unat c) @ rest) (length pre) = Some c"
proof -
  have "unat c < 2 ^ 16" using unsigned_less [of c] by simp
  then have "unat c mod 256 ^ 2 = unat c" by simp
  then show ?thesis
    using take_drop_mid [of "le_bytes 2 (unat c)" pre rest]
    by (simp add: read_wchar_def sizeof_wchar_t_def le_nat_le_bytes)
qed

lemma read_wstring_bytes:
  "read_wstring (pre @ wstring_bytes s @ rest) (length pre) (length s) = Some s"
proof (induction s arbitrary: pre)
  case Nil
  show ?case by simp
next
  case (Cons c s)
  have a: "read_wchar (pre @ wstring_bytes (c # s) @ rest) (length pre) = Some c"
    using read_wchar_le_bytes [of pre c "wstring_bytes s @ rest"]
    by (simp add: wstring_bytes_def)
  have b: "read_wstring ((pre @ le_bytes 2 (unat c)) @ wstring_bytes s @ rest)
             (length (pre @ le_bytes 2 (unat c))) (length s) = Some s"
    by (rule Cons.IH)
  have c: "pre @ wstring_bytes (c # s) @ rest = (pre @ le_bytes 2 (unat c)) @ wstring_bytes s @ rest"
    by (simp add: wstring_bytes_def)
  show ?case
    using a b unfolding c by (simp add: sizeof_wchar_t_def)
qed

lemma length_wstring_bytes [simp]: "length (wstring_bytes s) = 2 * length s"
  by (induction s) (simp_all add: wstring_bytes_def)

lemma length_record_bytes [simp]: "length (record_bytes b r) = record_size r"
  by (simp add: record_bytes_def record_size_def)


lemma NextEntryOffset_record:
  assumes "record_size r < 2 ^ 32"
  shows "NextEntryOffset (pre @ record_bytes b r @ rest) (length pre)
           = Some (of_nat (if b then 0 else record_size r))"
proof -
  have "(if b then 0 else record_size r) < 2 ^ 32"
    using assms by simp
  then show ?thesis
    unfolding NextEntryOffset_def record_bytes_def
    using read_DWORD_le_bytes [of "if b then 0 else record_size r" pre]
    by simp
qed

lemma FileNameLength_record:
  assumes "record_size r < 2 ^ 32"
  shows "FileNameLength (pre @ record_bytes b r @ rest) (length pre)
           = Some (of_nat (2 * length (rec_name r)))"
proof -
  let ?hd = "pre @ le_bytes 4 (if b then 0 else record_size r) @ le_bytes 4 (unat (rec_action r))"
  have n: "2 * length (rec_name r) < 2 ^ 32"
    using assms by (simp add: record_size_def)
  have "read_DWORD (?hd @ le_bytes 4 (2 * length (rec_name r)) @ wstring_bytes (rec_name r) @ rec_pad r @ rest)
          (length ?hd) = Some (of_nat (2 * length (rec_name r)))"
    using n by (rule read_DWORD_le_bytes)
  then show ?thesis
    by (simp add: FileNameLength_def record_bytes_def add.commute)
qed

lemma FileName_record:
  "FileName (pre @ record_bytes b r @ rest) (length pre) (length (rec_name r)) = Some (rec_name r)"
proof -
  let ?hd = "pre @ le_bytes 4 (if b then 0 else record_size r) @ le_bytes 4 (unat (rec_action r))
               @ le_bytes 4 (2 * length (rec_name r))"
  have "read_wstring (?hd @ wstring_bytes (rec_name r) @ rec_pad r @ rest) (length ?hd)
          (length (rec_name r)) = Some (rec_name r)"
    by (rule read_wstring_bytes)
  then show ?thesis
    by (simp add: FileName_def record_bytes_def add.commute)
qed

lemma unat_DWORD: "n < 2 ^ 32 \<Longrightarrow> unat (of_nat n :: DWORD) = n"
  by (simp add: unat_of_nat)

lemma unat_name_length:
  assumes "record_size r < 2 ^ 32"
  shows "unat (of_nat (2 * length (rec_name r)) :: DWORD) = 2 * length (rec_name r)"
proof -
  have "2 * length (rec_name r) < 2 ^ 32"
    using assms by (simp add: record_size_def)
  then show ?thesis by (rule unat_DWORD)
qed

lemma run_entry_record:
  assumes "record_size r < 2 ^ 32"
  shows "run_entry conv path (pre @ record_bytes b r @ rest) (length pre) out =
           (if rec_name r = [] then Inr out
            else case conv (c_str (abs_path path (rec_name r))) of
                   None \<Rightarrow> Inl (libfsw_exception ''WideCharToMultiByte failed.'')
                 | Some u \<Rightarrow> Inr (out @ [u]))"
proof (cases "rec_name r = []")
  case True
  then show ?thesis
    using FileNameLength_record [OF assms, of pre b rest]
    by (simp add: run_entry_def)
next
  case False
  have "unat (of_nat (2 * length (rec_name r)) :: DWORD) \<noteq> 0"
    unfolding unat_name_length [OF assms] using False by simp
  then have pos: "(of_nat (2 * length (rec_name r)) :: DWORD) > 0"
    unfolding word_greater_zero_iff unat_eq_0 .
  show ?thesis
    using False pos FileNameLength_record [OF assms, of pre b rest]
      FileName_record [of pre b r rest] unat_name_length [OF assms]
    by (simp add: run_entry_def sizeof_wchar_t_def del: of_nat_mult)
qed

lemma run_entries_encode:
  assumes "recs \<noteq> []" and "\<forall>r\<in>set recs. record_size r < 2 ^ 32"
  shows "run_entries conv path (pre @ encode_records recs @ rest) (length pre) out
           = emit_records conv path recs out"
  using assms
proof (induction recs arbitrary: pre out)
  case Nil
  then show ?case by simp
next
  case (Cons r rs)
  have sz: "record_size r < 2 ^ 32"
    using Cons.prems by simp
  show ?case
  proof (cases "rs = []")
    case True
    have "run_entries conv path (pre @ record_bytes True r @ rest) (length pre) out
            = emit_records conv path [r] out"
      using run_entry_record [OF sz, of conv path pre True rest out]
        NextEntryOffset_record [OF sz, of pre True rest]
      by (subst run_entries.simps) (simp split: option.splits)
    then show ?thesis using True by simp
  next
    case False
    let ?pre = "pre @ record_bytes False r"
    let ?buf = "pre @ record_bytes False r @ encode_records rs @ rest"
    have enc: "pre @ encode_records (r # rs) @ rest = ?buf"
      using False by (cases rs) simp_all
    have again: "?buf = ?pre @ encode_records rs @ rest"
      by simp
    have off: "NextEntryOffset ?buf (length pre) = Some (of_nat (record_size r))"
      using NextEntryOffset_record [OF sz, of pre False "encode_records rs @ rest"] by simp
    have nz: "(of_nat (record_size r) :: DWORD) \<noteq> 0"
    proof -
      have "unat (of_nat (record_size r) :: DWORD) = record_size r"
        using sz by (rule unat_DWORD)
      moreover have "record_size r \<noteq> 0" by (simp add: record_size_def)
      ultimately show ?thesis by (metis unat_0)
    qed
    have next_p: "unat (of_nat (record_size r) :: DWORD) = record_size r"
      using sz by (rule unat_DWORD)
    have rs_sz: "\<forall>r\<in>set rs. record_size r < 2 ^ 32"
      using Cons.prems by simp
    have "run_entries conv path (?pre @ encode_records rs @ rest) (length ?pre) out'
                = emit_records conv path rs out'" for out'
      using False rs_sz by (rule Cons.IH)
    then have IH: "run_entries conv path ?buf (length pre + record_size r) out'
                = emit_records conv path rs out'" for out'
      by simp
    have ent: "run_entry conv path ?buf (length pre) out =
           (if rec_name r = [] then Inr out
            else case conv (c_str (abs_path path (rec_name r))) of
                   None \<Rightarrow> Inl (libfsw_exception ''WideCharToMultiByte failed.'')
                 | Some u \<Rightarrow> Inr (out @ [u]))"
      using run_entry_record [OF sz, of conv path pre False "encode_records rs @ rest" out] by simp
    have "run_entries conv path ?buf (length pre) out = emit_records conv path (r # rs) out"
      by (subst run_entries.simps) (simp add: ent off nz next_p IH split: option.splits)
    then show ?thesis unfolding enc .
  qed
qed

lemma emit_records_ok:
  assumes "\<forall>r\<in>set recs. rec_name r \<noteq> [] \<longrightarrow> conv (c_str (abs_path path (rec_name r))) \<noteq> None"
  shows "emit_records conv path recs out = Inr (out @ expected_lines conv path recs)"
  using assms
  by (induction recs arbitrary: out) (auto simp add: expected_lines_def)

lemma read_wchar_cong:
  assumes "p + 2 \<le> length buf" and "q + 2 \<le> length buf'"
    and "take 2 (drop p buf) = take 2 (drop q buf')"
  shows "read_wchar buf p = read_wchar buf' q"
  using assms by (simp add: read_wchar_def sizeof_wchar_t_def)

lemma read_wstring_cong:
  assumes "p + 2 * n \<le> length buf" and "q + 2 * n \<le> length buf'"
    and "take (2 * n) (drop p buf) = take (2 * n) (drop q buf')"
  shows "read_wstring buf p n = read_wstring buf' q n"
  using assms
proof (induction n arbitrary: p q)
  case 0
  show ?case by simp
next
  case (Suc n)
  have "take 2 (take (2 * Suc n) (drop p buf)) = take 2 (take (2 * Suc n) (drop q buf'))"
    using Suc.prems(3) by simp
  then have two: "take 2 (drop p buf) = take 2 (drop q buf')"
    by (simp add: min_def)
  have "drop 2 (take (2 * Suc n) (drop p buf)) = drop 2 (take (2 * Suc n) (drop q buf'))"
    using Suc.prems(3) by simp
  then have tl: "take (2 * n) (drop (p + 2) buf) = take (2 * n) (drop (q + 2) buf')"
    by (simp add: drop_take add.commute)
  have c: "read_wchar buf p = read_wchar buf' q"
    using Suc.prems(1,2) two by (intro read_wchar_cong) simp_all
  have r: "read_wstring buf (p + 2) n = read_wstring buf' (q + 2) n"
    using Suc.prems(1,2) tl by (intro Suc.IH) simp_all
  have r': "read_wstring buf (p + sizeof_wchar_t) n = read_wstring buf' (q + sizeof_wchar_t) n"
    using r by (simp add: sizeof_wchar_t_def)
  show ?case
    by (simp only: read_wstring.simps c r')
qed

lemma read_wstring_Some:
  assumes "p + 2 * n \<le> length buf"
  shows "\<exists>name. read_wstring buf p n = Some name \<and> length name = n"
  using assms
proof (induction n arbitrary: p)
  case 0
  show ?case by simp
next
  case (Suc n)
  have "p + 2 + 2 * n \<le> length buf" using Suc.prems by simp
  from Suc.IH [OF this] obtain name where
    "read_wstring buf (p + 2) n = Some name" and "length name = n" by blast
  moreover have "read_wchar buf p \<noteq> None"
    using Suc.prems by (simp add: read_wchar_def sizeof_wchar_t_def)
  ultimately show ?case
    by (auto simp add: sizeof_wchar_t_def)
qed


subsection \<open>Sessions\<close>

lemma stop_search_for_path_simps:
  "dce_by_path (stop_search_for_path path s) path = None"
  "cout (stop_search_for_path path s) = cout s"
  "cerr (stop_search_for_path path s) = cerr s"
  "win_paths (stop_search_for_path path s) = win_paths s"
  "event_by_path (stop_search_for_path path s) = event_by_path s"
  "q \<noteq> path \<Longrightarrow> dce_by_path (stop_search_for_path path s) q = dce_by_path s q"
  by (simp_all add: stop_search_for_path_def split: option.splits)

lemma stop_search_for_path_calls:
  "dce_by_path s path = Some dce \<Longrightarrow>
     calls (stop_search_for_path path s) = CHandle_destroy (handle dce) (calls s)"
  by (simp add: stop_search_for_path_def)

lemma CHandle_destroy_calls:
  "CHandle_destroy c cs = cs @ (if is_valid (h c) then [CloseHandle (h c)] else [])"
  by (simp add: CHandle_destroy_def)

lemma run_path_present:
  "dce_by_path s path = Some dce \<Longrightarrow> run_path os path s = run_poll os path dce s"
  by (simp add: run_path_def)

lemma run_poll_failed:
  assumes "GetOverlappedResult_ret os = Inl err" and "err \<noteq> ERROR_IO_INCOMPLETE"
  shows "run_poll os path dce s =
           Inr (stop_search_for_path path
                  (s\<lparr>calls := calls s @ [GetOverlappedResult (h (handle dce))],
                     cerr := cerr s @ (if err = ERROR_NOTIFY_ENUM_DIR then [''Overflow.''] else [])\<rparr>))"
  using assms by (simp add: run_poll_def Let_def)

lemma init_search_for_path_opens:
  assumes "opens os" and "dce_by_path s path = None"
  shows "\<exists>s1 dce. init_search_for_path os path s = Inr (True, s1)
           \<and> dce_by_path s1 path = Some dce
           \<and> h (handle dce) = CreateFileW_ret os
           \<and> cout s1 = cout s \<and> cerr s1 = cerr s
           \<and> calls s1 = calls s @ [CreateFileW path, ReadDirectoryChangesW (CreateFileW_ret os)]"
  using assms
  by (auto simp add: opens_def init_search_for_path_def Let_def DirectoryChangeEvent_new_def
        CHandle_assign_def CHandle_move_assign_def CHandle_destroy_def CHandle_from_def
        is_valid_def split: option.splits)

lemma init_search_for_path_calls:
  assumes "init_search_for_path os path s = Inr (ok, s1)"
  shows "\<exists>rest. calls s1 = calls s @ CreateFileW path # rest"
  using assms
  by (auto simp add: init_search_for_path_def Let_def DirectoryChangeEvent_new_def
        CHandle_assign_def CHandle_move_assign_def CHandle_destroy_def CHandle_from_def
        split: option.splits if_splits sum.splits)

lemma init_search_for_path_True:
  assumes "init_search_for_path os path s = Inr (True, s1)"
  shows "\<exists>dce. dce_by_path s1 path = Some dce"
  using assms
  by (auto simp add: init_search_for_path_def Let_def DirectoryChangeEvent_new_def
        CHandle_assign_def CHandle_move_assign_def CHandle_destroy_def CHandle_from_def
        split: option.splits if_splits sum.splits)

lemma run_poll_calls:
  assumes "run_poll os path dce s = Inr s'"
  shows "\<exists>rest. calls s' = calls s @ rest"
  using assms
  by (auto simp add: run_poll_def Let_def stop_search_for_path_def CHandle_destroy_def
        split: option.splits if_splits sum.splits prod.splits)

lemma run_path_absent_calls:
  assumes "dce_by_path s path = None" and "run_path os path s = Inr s'"
  shows "\<exists>rest. calls s' = calls s @ CreateFileW path # rest"
proof (cases "init_search_for_path os path s")
  case (Inl e)
  then show ?thesis using assms by (simp add: run_path_def)
next
  case (Inr r)
  obtain ok s1 where r: "r = (ok, s1)" by (cases r)
  from init_search_for_path_calls [of os path s ok s1] Inr r
  obtain rest where c1: "calls s1 = calls s @ CreateFileW path # rest" by auto
  show ?thesis
  proof (cases ok)
    case False
    then show ?thesis using assms Inr r c1 by (simp add: run_path_def)
  next
    case True
    then obtain dce where d: "dce_by_path s1 path = Some dce"
      using init_search_for_path_True [of os path s s1] Inr r by auto
    then have "run_poll os path dce s1 = Inr s'"
      using assms Inr r True by (simp add: run_path_def)
    from run_poll_calls [OF this] c1 show ?thesis by auto
  qed
qed

lemma run_path_reopens:
  assumes "dce_by_path s path = None" and "opens os"
    and "GetOverlappedResult_ret os = Inl ERROR_IO_INCOMPLETE"
  shows "\<exists>s'. run_path os path s = Inr s' \<and> dce_by_path s' path \<noteq> None"
proof -
  from init_search_for_path_opens [OF assms(2,1)] obtain s1 dce where
    "init_search_for_path os path s = Inr (True, s1)" and "dce_by_path s1 path = Some dce"
    by blast
  then show ?thesis
    using assms(1,3) by (simp add: run_path_def run_poll_def Let_def)
qed

lemma init_search_for_path_frame:
  assumes "init_search_for_path os q s = Inr (ok, s')" and "q \<noteq> path"
  shows "dce_by_path s' path = dce_by_path s path"
  using assms
  by (auto simp add: init_search_for_path_def Let_def DirectoryChangeEvent_new_def
        CHandle_assign_def CHandle_move_assign_def CHandle_destroy_def CHandle_from_def
        split: option.splits if_splits sum.splits)

lemma run_poll_frame:
  assumes "run_poll os q dce s = Inr s'" and "q \<noteq> path"
  shows "dce_by_path s' path = dce_by_path s path"
  using assms
  by (auto simp add: run_poll_def Let_def stop_search_for_path_def
        split: option.splits if_splits sum.splits prod.splits)

lemma run_path_frame:
  assumes "run_path os q s = Inr s'" and "q \<noteq> path"
  shows "dce_by_path s' path = dce_by_path s path"
proof (cases "dce_by_path s q")
  case (Some dce)
  then have "run_poll os q dce s = Inr s'"
    using assms(1) by (simp add: run_path_present)
  then show ?thesis using assms(2) by (rule run_poll_frame)
next
  case None
  show ?thesis
  proof (cases "init_search_for_path os q s")
    case (Inl e)
    then show ?thesis using assms(1) None by (simp add: run_path_def)
  next
    case (Inr r)
    obtain ok s1 where r: "r = (ok, s1)" by (cases r)
    have f1: "dce_by_path s1 path = dce_by_path s path"
      using Inr r assms(2) init_search_for_path_frame by blast
    show ?thesis
    proof (cases ok)
      case False
      then show ?thesis using assms(1) None Inr r f1 by (simp add: run_path_def)
    next
      case True
      then obtain dce where d: "dce_by_path s1 q = Some dce"
        using init_search_for_path_True [of os q s s1] Inr r by auto
      then have "run_poll os q dce s1 = Inr s'"
        using assms(1) None Inr r True by (simp add: run_path_def)
      then have "dce_by_path s' path = dce_by_path s1 path"
        using assms(2) by (rule run_poll_frame)
      then show ?thesis using f1 by simp
    qed
  qed
qed

lemma run_path_calls:
  assumes "run_path os q s = Inr s'"
  shows "\<exists>rest. calls s' = calls s @ rest"
proof (cases "dce_by_path s q")
  case (Some dce)
  then have "run_poll os q dce s = Inr s'"
    using assms by (simp add: run_path_present)
  then show ?thesis by (rule run_poll_calls)
next
  case None
  from run_path_absent_calls [OF None assms] show ?thesis by auto
qed

lemma run_paths_calls:
  assumes "run_paths os ps s = Inr s'"
  shows "\<exists>rest. calls s' = calls s @ rest"
  using assms
proof (induction ps arbitrary: s)
  case Nil
  then show ?case by simp
next
  case (Cons p ps)
  from Cons.prems obtain s1 where p: "run_path (os p) p s = Inr s1"
    and ps: "run_paths os ps s1 = Inr s'"
    by (auto split: sum.splits)
  from run_path_calls [OF p] Cons.IH [OF ps] show ?case by auto
qed

lemma run_paths_frame:
  assumes "run_paths os ps s = Inr s'" and "path \<notin> set ps"
  shows "dce_by_path s' path = dce_by_path s path"
  using assms
proof (induction ps arbitrary: s)
  case Nil
  then show ?case by simp
next
  case (Cons p ps)
  from Cons.prems(1) obtain s1 where p: "run_path (os p) p s = Inr s1"
    and ps: "run_paths os ps s1 = Inr s'"
    by (auto split: sum.splits)
  have "dce_by_path s1 path = dce_by_path s path"
    using p Cons.prems(2) by (intro run_path_frame) auto
  moreover have "dce_by_path s' path = dce_by_path s1 path"
    using ps Cons.prems(2) by (intro Cons.IH) auto
  ultimately show ?case by simp
qed

lemma run_paths_reinitializes:
  assumes "dce_by_path s path = None" and "path \<in> set ps" and "run_paths os ps s = Inr s'"
  shows "CreateFileW path \<in> set (drop (length (calls s)) (calls s'))"
  using assms
proof (induction ps arbitrary: s)
  case Nil
  then show ?case by simp
next
  case (Cons p ps)
  from Cons.prems(3) obtain s1 where p: "run_path (os p) p s = Inr s1"
    and ps: "run_paths os ps s1 = Inr s'"
    by (auto split: sum.splits)
  from run_path_calls [OF p] obtain r1 where r1: "calls s1 = calls s @ r1" by blast
  from run_paths_calls [OF ps] obtain r2 where r2: "calls s' = calls s1 @ r2" by blast
  show ?case
  proof (cases "p = path")
    case True
    then have "run_path (os p) path s = Inr s1" using p by simp
    from run_path_absent_calls [OF Cons.prems(1) this] obtain rest where
      "calls s1 = calls s @ CreateFileW path # rest" by blast
    then show ?thesis using r2 by simp
  next
    case False
    then have "dce_by_path s1 path = None"
      using run_path_frame [OF p, of path] Cons.prems(1) by simp
    moreover have "path \<in> set ps" using Cons.prems(2) False by simp
    ultimately have "CreateFileW path \<in> set (drop (length (calls s1)) (calls s'))"
      using ps by (intro Cons.IH)
    then show ?thesis using r1 r2 by simp
  qed
qed

text \<open>
  C5. When the poll of a watched path fails with an error other than "incomplete" and
  "overflow", the session is removed from the registry and nothing is written to cout.
  The rest of the tick, which handles other paths, leaves the path without a session, and
  a tick that starts without a session for a path it handles calls CreateFileW on that
  path: it runs init\_search\_for\_path. In particular the next visit of the path starts
  with that call, and where the operating system lets the path open the session is in the
  registry again.
\<close>

theorem poll_error_evicts_session:
  assumes "dce_by_path s path = Some dce"
    and "GetOverlappedResult_ret os = Inl err"
    and "err \<noteq> ERROR_IO_INCOMPLETE" and "err \<noteq> ERROR_NOTIFY_ENUM_DIR"
  shows "\<exists>s'. run_path os path s = Inr s'
           \<and> dce_by_path s' path = None
           \<and> cout s' = cout s
           \<and> (\<forall>answers ps t. path \<notin> set ps \<and> run_paths answers ps s' = Inr t
                  \<longrightarrow> dce_by_path t path = None)
           \<and> (\<forall>answers ps u t. dce_by_path u path = None \<and> path \<in> set ps
                    \<and> run_paths answers ps u = Inr t
                  \<longrightarrow> CreateFileW path \<in> set (drop (length (calls u)) (calls t)))
           \<and> (\<forall>os' s''. run_path os' path s' = Inr s''
                  \<longrightarrow> (\<exists>rest. calls s'' = calls s' @ CreateFileW path # rest))
           \<and> (\<forall>os'. opens os' \<and> GetOverlappedResult_ret os' = Inl ERROR_IO_INCOMPLETE
                  \<longrightarrow> (\<exists>s''. run_path os' path s' = Inr s'' \<and> dce_by_path s'' path \<noteq> None))"
proof -
  let ?s' = "stop_search_for_path path
               (s\<lparr>calls := calls s @ [GetOverlappedResult (h (handle dce))],
                  cerr := cerr s @ (if err = ERROR_NOTIFY_ENUM_DIR then [''Overflow.''] else [])\<rparr>)"
  have run: "run_path os path s = Inr ?s'"
    using assms(1) run_poll_failed [OF assms(2,3)] by (simp add: run_path_present)
  have gone: "dce_by_path ?s' path = None"
    by (rule stop_search_for_path_simps)
  have out: "cout ?s' = cout s"
    by (simp add: stop_search_for_path_simps)
  have stays: "dce_by_path t path = None"
    if "path \<notin> set ps \<and> run_paths answers ps ?s' = Inr t" for answers ps t
    using that run_paths_frame [of answers ps ?s' t path] gone by simp
  have tick: "CreateFileW path \<in> set (drop (length (calls u)) (calls t))"
    if "dce_by_path u path = None \<and> path \<in> set ps \<and> run_paths answers ps u = Inr t"
    for answers ps u t
    using that run_paths_reinitializes [of u path ps answers t] by simp
  have retry: "\<exists>rest. calls s'' = calls ?s' @ CreateFileW path # rest"
    if "run_path os' path ?s' = Inr s''" for os' s''
    using gone that by (rule run_path_absent_calls)
  have reopen: "\<exists>s''. run_path os' path ?s' = Inr s'' \<and> dce_by_path s'' path \<noteq> None"
    if "opens os' \<and> GetOverlappedResult_ret os' = Inl ERROR_IO_INCOMPLETE" for os'
    using gone that by (intro run_path_reopens) simp_all
  show ?thesis
    using run gone out stays tick retry reopen by blast
qed

theorem poll_error_evicts_session_witness:
  "\<exists>s'. run_path (example_os\<lparr>GetOverlappedResult_ret := Inl 5\<rparr>) example_path example_monitor
           = Inr s'
         \<and> dce_by_path s' example_path = None \<and> cout s' = []
         \<and> (\<exists>s''. run_path example_os example_path s' = Inr s''
                \<and> dce_by_path s'' example_path \<noteq> None)"
proof -
  let ?os = "example_os\<lparr>GetOverlappedResult_ret := Inl 5\<rparr>"
  have present: "dce_by_path example_monitor example_path = Some example_session"
    by (simp add: example_monitor_def)
  have failed: "GetOverlappedResult_ret ?os = Inl 5"
    by simp
  have other: "(5 :: DWORD) \<noteq> ERROR_IO_INCOMPLETE" "(5 :: DWORD) \<noteq> ERROR_NOTIFY_ENUM_DIR"
    by (simp_all add: ERROR_IO_INCOMPLETE_def ERROR_NOTIFY_ENUM_DIR_def)
  have good: "opens example_os \<and> GetOverlappedResult_ret example_os = Inl ERROR_IO_INCOMPLETE"
    by (simp add: example_os_def opens_def is_valid_def INVALID_HANDLE_VALUE_def nullptr_def)
  from poll_error_evicts_session [OF present failed other] obtain s' where
    run: "run_path ?os example_path example_monitor = Inr s'"
    and gone: "dce_by_path s' example_path = None"
    and out: "cout s' = cout example_monitor"
    and reopen: "\<forall>os'. opens os' \<and> GetOverlappedResult_ret os' = Inl ERROR_IO_INCOMPLETE
           \<longrightarrow> (\<exists>s''. run_path os' example_path s' = Inr s'' \<and> dce_by_path s'' example_path \<noteq> None)"
    by blast
  from reopen good obtain s'' where
    "run_path example_os example_path s' = Inr s''" and "dce_by_path s'' example_path \<noteq> None"
    by blast
  moreover have "cout s' = []"
    using out by (simp add: example_monitor_def)
  ultimately show ?thesis
    using run gone by blast
qed

lemma overflow_not_incomplete: "ERROR_NOTIFY_ENUM_DIR \<noteq> ERROR_IO_INCOMPLETE"
  by (simp add: ERROR_NOTIFY_ENUM_DIR_def ERROR_IO_INCOMPLETE_def)

lemma run_poll_decodes:
  assumes "GetOverlappedResult_ret os = Inr (n, encode_records recs @ rest)" and "n \<noteq> 0"
    and "recs \<noteq> []" and "\<forall>r\<in>set recs. record_size r < 2 ^ 32"
    and "\<forall>r\<in>set recs. rec_name r \<noteq> []
           \<longrightarrow> WideCharToMultiByte os (c_str (abs_path path (rec_name r))) \<noteq> None"
    and "ResetEvent_ret os"
  shows "\<exists>s'. run_poll os path dce s = Inr s'
           \<and> cout s' = cout s @ expected_lines (WideCharToMultiByte os) path recs"
proof -
  have "run_entries (WideCharToMultiByte os) path ([] @ encode_records recs @ rest) (length ([] :: byte list)) (cout s)
          = emit_records (WideCharToMultiByte os) path recs (cout s)"
    using assms(3,4) by (rule run_entries_encode)
  then have dec: "run_entries (WideCharToMultiByte os) path (encode_records recs @ rest) 0 (cout s)
          = Inr (cout s @ expected_lines (WideCharToMultiByte os) path recs)"
    using emit_records_ok [OF assms(5)] by simp
  show ?thesis
    using assms(1,2,6) dec
    by (simp add: run_poll_def Let_def stop_search_for_path_simps)
qed

text \<open>
  C1, as the code has it. When the poll of a watched path fails with the overflow error,
  "Overflow." is written to cerr and the session is removed from the registry as for any
  other error: its directory handle is closed, no read is reissued and nothing is written
  to cout. The next time the loop handles the path, if the operating system lets the path
  open, a new session is created, and a buffer of well-formed records that its poll
  returns is decoded.
\<close>

theorem overflow_evicts_session:
  assumes "dce_by_path s path = Some dce"
    and "GetOverlappedResult_ret os = Inl ERROR_NOTIFY_ENUM_DIR"
  shows "\<exists>s'. run_path os path s = Inr s'
           \<and> dce_by_path s' path = None
           \<and> cerr s' = cerr s @ [''Overflow.'']
           \<and> cout s' = cout s
           \<and> calls s' = calls s @ GetOverlappedResult (h (handle dce))
                 # (if is_valid (h (handle dce)) then [CloseHandle (h (handle dce))] else [])
           \<and> (\<forall>os' n recs rest.
                 opens os' \<and> GetOverlappedResult_ret os' = Inr (n, encode_records recs @ rest)
                 \<and> n \<noteq> 0 \<and> recs \<noteq> [] \<and> (\<forall>r\<in>set recs. record_size r < 2 ^ 32)
                 \<and> (\<forall>r\<in>set recs. rec_name r \<noteq> []
                       \<longrightarrow> WideCharToMultiByte os' (c_str (abs_path path (rec_name r))) \<noteq> None)
                 \<and> ResetEvent_ret os'
                 \<longrightarrow> (\<exists>s''. run_path os' path s' = Inr s''
                        \<and> cout s'' = cout s @ expected_lines (WideCharToMultiByte os') path recs))"
proof -
  let ?s1 = "s\<lparr>calls := calls s @ [GetOverlappedResult (h (handle dce))],
                cerr := cerr s @ [''Overflow.'']\<rparr>"
  let ?s' = "stop_search_for_path path ?s1"
  have run: "run_path os path s = Inr ?s'"
    using assms(1) run_poll_failed [OF assms(2) overflow_not_incomplete]
    by (simp add: run_path_present)
  have gone: "dce_by_path ?s' path = None"
    by (rule stop_search_for_path_simps)
  have err: "cerr ?s' = cerr s @ [''Overflow.'']"
    by (simp add: stop_search_for_path_simps)
  have out: "cout ?s' = cout s"
    by (simp add: stop_search_for_path_simps)
  have "dce_by_path ?s1 path = Some dce"
    using assms(1) by simp
  from stop_search_for_path_calls [OF this]
  have cs: "calls ?s' = calls s @ GetOverlappedResult (h (handle dce))
                 # (if is_valid (h (handle dce)) then [CloseHandle (h (handle dce))] else [])"
    by (simp add: CHandle_destroy_calls)
  have later: "\<exists>s''. run_path os' path ?s' = Inr s''
                 \<and> cout s'' = cout s @ expected_lines (WideCharToMultiByte os') path recs"
    if ok: "opens os'" and got: "GetOverlappedResult_ret os' = Inr (n, encode_records recs @ rest)"
      and n: "n \<noteq> 0" and recs: "recs \<noteq> []" and sz: "\<forall>r\<in>set recs. record_size r < 2 ^ 32"
      and conv: "\<forall>r\<in>set recs. rec_name r \<noteq> []
                   \<longrightarrow> WideCharToMultiByte os' (c_str (abs_path path (rec_name r))) \<noteq> None"
      and reset: "ResetEvent_ret os'"
    for os' n recs rest
  proof -
    from init_search_for_path_opens [OF ok gone] obtain s1 d where
      init: "init_search_for_path os' path ?s' = Inr (True, s1)"
      and d: "dce_by_path s1 path = Some d" and c1: "cout s1 = cout ?s'"
      by blast
    from run_poll_decodes [OF got n recs sz conv reset, of d s1] obtain s'' where
      "run_poll os' path d s1 = Inr s''"
      and "cout s'' = cout s1 @ expected_lines (WideCharToMultiByte os') path recs"
      by blast
    then show ?thesis
      using gone init d c1 out by (simp add: run_path_def)
  qed
  show ?thesis
    using run gone err out cs later by blast
qed

theorem overflow_evicts_session_witness:
  "\<exists>s' s''. run_path (example_os\<lparr>GetOverlappedResult_ret := Inl ERROR_NOTIFY_ENUM_DIR\<rparr>)
                example_path example_monitor = Inr s'
         \<and> dce_by_path s' example_path = None \<and> cerr s' = [''Overflow.''] \<and> cout s' = []
         \<and> calls s' = [GetOverlappedResult 7, CloseHandle 7]
         \<and> run_path (example_os\<lparr>GetOverlappedResult_ret := Inr (72, encode_records example_records @ [])\<rparr>)
                example_path s' = Inr s''
         \<and> cout s'' =
              [[CHR ''C'', CHR '':'', CHR 0x5C, CHR ''a'', CHR ''.'', CHR ''t'', CHR ''x'', CHR ''t''],
               [CHR ''C'', CHR '':'', CHR 0x5C, CHR ''a'', CHR ''.'', CHR ''t'', CHR ''x'', CHR ''t''],
               [CHR ''C'', CHR '':'', CHR 0x5C, CHR ''a'', CHR ''.'', CHR ''t'', CHR ''x'', CHR ''t'']]"
proof -
  let ?os = "example_os\<lparr>GetOverlappedResult_ret := Inl ERROR_NOTIFY_ENUM_DIR\<rparr>"
  let ?os' = "example_os\<lparr>GetOverlappedResult_ret := Inr (72, encode_records example_records @ [])\<rparr>"
  have present: "dce_by_path example_monitor example_path = Some example_session"
    by (simp add: example_monitor_def)
  have failed: "GetOverlappedResult_ret ?os = Inl ERROR_NOTIFY_ENUM_DIR"
    by simp
  from overflow_evicts_session [OF present failed] obtain s' where
    run: "run_path ?os example_path example_monitor = Inr s'"
    and gone: "dce_by_path s' example_path = None"
    and err: "cerr s' = cerr example_monitor @ [''Overflow.'']"
    and out: "cout s' = cout example_monitor"
    and cs: "calls s' = calls example_monitor @ GetOverlappedResult (h (handle example_session))
                 # (if is_valid (h (handle example_session))
                    then [CloseHandle (h (handle example_session))] else [])"
    and later: "\<forall>os' n recs rest.
                 opens os' \<and> GetOverlappedResult_ret os' = Inr (n, encode_records recs @ rest)
                 \<and> n \<noteq> 0 \<and> recs \<noteq> [] \<and> (\<forall>r\<in>set recs. record_size r < 2 ^ 32)
                 \<and> (\<forall>r\<in>set recs. rec_name r \<noteq> []
                       \<longrightarrow> WideCharToMultiByte os' (c_str (abs_path example_path (rec_name r))) \<noteq> None)
                 \<and> ResetEvent_ret os'
                 \<longrightarrow> (\<exists>s''. run_path os' example_path s' = Inr s''
                        \<and> cout s'' = cout example_monitor
                             @ expected_lines (WideCharToMultiByte os') example_path recs)"
    by blast
  have "opens ?os'"
    by (simp add: example_os_def opens_def is_valid_def INVALID_HANDLE_VALUE_def nullptr_def)
  moreover have "GetOverlappedResult_ret ?os' = Inr (72, encode_records example_records @ [])"
    by simp
  moreover have "(72 :: DWORD) \<noteq> 0" by simp
  moreover have "example_records \<noteq> []"
    by (simp add: example_records_def)
  moreover have "\<forall>r\<in>set example_records. record_size r < 2 ^ 32"
    by (simp add: example_records_def record_size_def)
  moreover have "\<forall>r\<in>set example_records. rec_name r \<noteq> []
           \<longrightarrow> WideCharToMultiByte ?os' (c_str (abs_path example_path (rec_name r))) \<noteq> None"
    by (simp add: example_os_def example_records_def example_path_def narrow_def c_str_def
          abs_path_def backslash_def)
  moreover have "ResetEvent_ret ?os'"
    by (simp add: example_os_def)
  ultimately obtain s'' where
    again: "run_path ?os' example_path s' = Inr s''"
    and lines: "cout s'' = cout example_monitor
                  @ expected_lines (WideCharToMultiByte ?os') example_path example_records"
    using later by blast
  have "cout example_monitor @ expected_lines narrow example_path example_records
     = [[CHR ''C'', CHR '':'', CHR 0x5C, CHR ''a'', CHR ''.'', CHR ''t'', CHR ''x'', CHR ''t''],
        [CHR ''C'', CHR '':'', CHR 0x5C, CHR ''a'', CHR ''.'', CHR ''t'', CHR ''x'', CHR ''t''],
        [CHR ''C'', CHR '':'', CHR 0x5C, CHR ''a'', CHR ''.'', CHR ''t'', CHR ''x'', CHR ''t'']]"
    by code_simp
  then have l: "cout s'' =
       [[CHR ''C'', CHR '':'', CHR 0x5C, CHR ''a'', CHR ''.'', CHR ''t'', CHR ''x'', CHR ''t''],
        [CHR ''C'', CHR '':'', CHR 0x5C, CHR ''a'', CHR ''.'', CHR ''t'', CHR ''x'', CHR ''t''],
        [CHR ''C'', CHR '':'', CHR 0x5C, CHR ''a'', CHR ''.'', CHR ''t'', CHR ''x'', CHR ''t'']]"
    using lines by (simp add: example_os_def)
  have e: "cerr s' = [''Overflow.'']" and o: "cout s' = []"
    using err out by (simp_all add: example_monitor_def)
  have c: "calls s' = [GetOverlappedResult 7, CloseHandle 7]"
    using cs by (simp add: example_monitor_def example_session_def CHandle_from_def is_valid_def
        INVALID_HANDLE_VALUE_def nullptr_def)
  show ?thesis
    using run gone e o c again l by blast
qed

text \<open>
  C1 as stated fails: after an overflow on the watched example path the registry has no
  session for it, and the calls made are the poll and the closing of the directory handle,
  with no new read.
\<close>

theorem overflow_keeps_session_counterexample:
  "(case run_path (example_os\<lparr>GetOverlappedResult_ret := Inl ERROR_NOTIFY_ENUM_DIR\<rparr>)
           example_path example_monitor of
      Inl e \<Rightarrow> False
    | Inr s' \<Rightarrow> dce_by_path s' example_path = None
               \<and> calls s' = [GetOverlappedResult 7, CloseHandle 7])"
  by (simp add: example_defs run_path_def run_poll_def Let_def stop_search_for_path_def
        CHandle_destroy_def CHandle_from_def is_valid_def INVALID_HANDLE_VALUE_def nullptr_def
        ERROR_NOTIFY_ENUM_DIR_def ERROR_IO_INCOMPLETE_def)

text \<open>
  C6, as the code has it. When the poll of a watched path succeeds with zero bytes,
  nothing is written to cout and the event is reset; if the reset fails the fatal error
  "::ResetEvent failed." is raised, otherwise a read is reissued in the same visit and the
  session stays in the registry exactly when that read was issued successfully (else it is
  removed and its directory handle closed).
\<close>

theorem zero_bytes_poll:
  assumes "dce_by_path s path = Some dce"
    and "GetOverlappedResult_ret os = Inr (0, bytes)"
  shows "(\<not> ResetEvent_ret os
            \<longrightarrow> run_path os path s = Inl (libfsw_exception ''::ResetEvent failed.''))
       \<and> (ResetEvent_ret os
            \<longrightarrow> (\<exists>s'. run_path os path s = Inr s'
                   \<and> cout s' = cout s
                   \<and> calls s' = calls s
                        @ [GetOverlappedResult (h (handle dce)),
                           ResetEvent (overlapped_hEvent dce),
                           ReadDirectoryChangesW (h (handle dce))]
                        @ (if \<not> ReadDirectoryChangesW_next os \<and> is_valid (h (handle dce))
                           then [CloseHandle (h (handle dce))] else [])
                   \<and> (dce_by_path s' path \<noteq> None \<longleftrightarrow> ReadDirectoryChangesW_next os)))"
  using assms
  by (simp add: run_path_def run_poll_def Let_def stop_search_for_path_def
        CHandle_destroy_def)

theorem zero_bytes_poll_witness:
  "\<exists>s'. run_path (example_os\<lparr>GetOverlappedResult_ret := Inr (0, [])\<rparr>)
           example_path example_monitor = Inr s'
         \<and> cout s' = []
         \<and> calls s' = [GetOverlappedResult 7, ResetEvent 5, ReadDirectoryChangesW 7]
         \<and> dce_by_path s' example_path \<noteq> None"
  using zero_bytes_poll
    [of example_monitor example_path example_session
        "example_os\<lparr>GetOverlappedResult_ret := Inr (0, [])\<rparr>" "[]"]
  by (simp add: example_defs CHandle_from_def)

text \<open>
  C6 as stated fails: with zero bytes returned and a reissue that fails, the session is
  no longer in the registry.
\<close>

theorem zero_bytes_poll_counterexample:
  "(case run_path (example_os\<lparr>GetOverlappedResult_ret := Inr (0, []),
                             ReadDirectoryChangesW_next := False\<rparr>)
           example_path example_monitor of
      Inl e \<Rightarrow> False
    | Inr s' \<Rightarrow> dce_by_path s' example_path = None)"
  by (simp add: example_defs run_path_def run_poll_def Let_def stop_search_for_path_def)

text \<open>
  C9. If the directory cannot be opened, init\_search\_for\_path returns false and only the
  call of CreateFileW has happened. If the directory was opened and the first read cannot
  be issued, it returns false, the registry is unchanged and the directory handle has been
  closed. Whenever it returns true the first read was issued successfully and the session
  of the path, holding the opened handle, is in the registry; whenever it returns false the
  registry is unchanged.
\<close>

theorem init_search_for_path_atomic:
  "(\<not> is_valid (CreateFileW_ret os)
      \<longrightarrow> init_search_for_path os path s = Inr (False, s\<lparr>calls := calls s @ [CreateFileW path]\<rparr>))
   \<and> (is_valid (CreateFileW_ret os) \<and> malloc_OVERLAPPED os \<noteq> None \<and> malloc_buffer os \<noteq> None
        \<and> \<not> ReadDirectoryChangesW_first os
      \<longrightarrow> (\<exists>s'. init_search_for_path os path s = Inr (False, s')
             \<and> dce_by_path s' = dce_by_path s
             \<and> calls s' = calls s @ [CreateFileW path,
                                      ReadDirectoryChangesW (CreateFileW_ret os),
                                      CloseHandle (CreateFileW_ret os)]))
   \<and> (\<forall>ok s'. init_search_for_path os path s = Inr (ok, s')
        \<longrightarrow> (if ok
             then is_valid (CreateFileW_ret os) \<and> ReadDirectoryChangesW_first os
                  \<and> ReadDirectoryChangesW (CreateFileW_ret os) \<in> set (calls s')
                  \<and> (\<exists>dce. dce_by_path s' path = Some dce \<and> h (handle dce) = CreateFileW_ret os)
             else dce_by_path s' = dce_by_path s))"
proof (intro conjI)
  show "\<not> is_valid (CreateFileW_ret os)
      \<longrightarrow> init_search_for_path os path s = Inr (False, s\<lparr>calls := calls s @ [CreateFileW path]\<rparr>)"
    by (simp add: init_search_for_path_def Let_def)
next
  show "is_valid (CreateFileW_ret os) \<and> malloc_OVERLAPPED os \<noteq> None \<and> malloc_buffer os \<noteq> None
        \<and> \<not> ReadDirectoryChangesW_first os
      \<longrightarrow> (\<exists>s'. init_search_for_path os path s = Inr (False, s')
             \<and> dce_by_path s' = dce_by_path s
             \<and> calls s' = calls s @ [CreateFileW path,
                                      ReadDirectoryChangesW (CreateFileW_ret os),
                                      CloseHandle (CreateFileW_ret os)])"
    by (auto simp add: init_search_for_path_def Let_def DirectoryChangeEvent_new_def
          CHandle_assign_def CHandle_destroy_def CHandle_from_def is_valid_def)
next
  show "\<forall>ok s'. init_search_for_path os path s = Inr (ok, s')
        \<longrightarrow> (if ok
             then is_valid (CreateFileW_ret os) \<and> ReadDirectoryChangesW_first os
                  \<and> ReadDirectoryChangesW (CreateFileW_ret os) \<in> set (calls s')
                  \<and> (\<exists>dce. dce_by_path s' path = Some dce \<and> h (handle dce) = CreateFileW_ret os)
             else dce_by_path s' = dce_by_path s)"
    by (auto simp add: init_search_for_path_def Let_def DirectoryChangeEvent_new_def
          CHandle_assign_def CHandle_move_assign_def CHandle_destroy_def CHandle_from_def
          split: option.splits if_splits sum.splits)
qed

theorem init_search_for_path_atomic_witness:
  "init_search_for_path (example_os\<lparr>CreateFileW_ret := INVALID_HANDLE_VALUE\<rparr>) example_path
       (example_monitor\<lparr>dce_by_path := Map.empty\<rparr>)
     = Inr (False, example_monitor\<lparr>dce_by_path := Map.empty, calls := [CreateFileW example_path]\<rparr>)
   \<and> (\<exists>s'. init_search_for_path (example_os\<lparr>ReadDirectoryChangesW_first := False\<rparr>) example_path
              (example_monitor\<lparr>dce_by_path := Map.empty\<rparr>) = Inr (False, s')
          \<and> dce_by_path s' = Map.empty
          \<and> calls s' = [CreateFileW example_path, ReadDirectoryChangesW 7, CloseHandle 7])"
  using init_search_for_path_atomic
      [of "example_os\<lparr>CreateFileW_ret := INVALID_HANDLE_VALUE\<rparr>" example_path
          "example_monitor\<lparr>dce_by_path := Map.empty\<rparr>"]
    init_search_for_path_atomic
      [of "example_os\<lparr>ReadDirectoryChangesW_first := False\<rparr>" example_path
          "example_monitor\<lparr>dce_by_path := Map.empty\<rparr>"]
  by (simp add: example_defs is_valid_def INVALID_HANDLE_VALUE_def nullptr_def)

subsection \<open>The decoder\<close>

lemma emit_records_skip:
  "rec_name r = [] \<Longrightarrow>
     emit_records conv path (xs @ r # ys) out = emit_records conv path (xs @ ys) out"
  by (induction xs arbitrary: out) (simp_all split: option.splits)

lemma run_entries_encode0:
  assumes "recs \<noteq> []" and "\<forall>r\<in>set recs. record_size r < 2 ^ 32"
  shows "run_entries conv path (encode_records recs @ rest) 0 out
           = emit_records conv path recs out"
  using run_entries_encode [OF assms, of conv path "[]" rest out] by simp

text \<open>
  C2, as the code has it. For every buffer that starts with a well-formed sequence of
  records, decoding writes one line for each record whose name is not empty, in the order
  of the records, provided each of these names converts to the output encoding: the line
  is the conversion of the watched path, a backslash and the record's name. Records with
  an empty name produce nothing. Decoding stops at the record whose next-entry offset is
  zero: what follows it in the buffer (rest) has no influence. The loop runs the decoder
  when the byte count is not zero, and the lines are then appended to cout.
\<close>

theorem decode_emits_named_records:
  assumes "recs \<noteq> []" and "\<forall>r\<in>set recs. record_size r < 2 ^ 32"
    and "\<forall>r\<in>set recs. rec_name r \<noteq> []
           \<longrightarrow> conv (c_str (path @ [backslash] @ rec_name r)) \<noteq> None"
  shows "run_entries conv path (encode_records recs @ rest) 0 out
           = Inr (out @ map (\<lambda>r. the (conv (c_str (path @ [backslash] @ rec_name r))))
                          (filter (\<lambda>r. rec_name r \<noteq> []) recs))
       \<and> (\<forall>os dce s n.
             WideCharToMultiByte os = conv
             \<and> GetOverlappedResult_ret os = Inr (n, encode_records recs @ rest)
             \<and> n \<noteq> 0 \<and> ResetEvent_ret os
             \<longrightarrow> (\<exists>s'. run_poll os path dce s = Inr s'
                    \<and> cout s' = cout s
                         @ map (\<lambda>r. the (conv (c_str (path @ [backslash] @ rec_name r))))
                             (filter (\<lambda>r. rec_name r \<noteq> []) recs)))"
proof -
  have conv: "\<forall>r\<in>set recs. rec_name r \<noteq> []
           \<longrightarrow> conv (c_str (abs_path path (rec_name r))) \<noteq> None"
    using assms(3) by (simp add: abs_path_def)
  have lines: "expected_lines conv path recs
      = map (\<lambda>r. the (conv (c_str (path @ [backslash] @ rec_name r))))
          (filter (\<lambda>r. rec_name r \<noteq> []) recs)"
    by (simp add: expected_lines_def abs_path_def)
  have "run_entries conv path (encode_records recs @ rest) 0 out
          = Inr (out @ expected_lines conv path recs)"
    using run_entries_encode0 [OF assms(1,2)] emit_records_ok [OF conv] by simp
  moreover have "\<exists>s'. run_poll os path dce s = Inr s'
                    \<and> cout s' = cout s @ expected_lines conv path recs"
    if "WideCharToMultiByte os = conv
        \<and> GetOverlappedResult_ret os = Inr (n, encode_records recs @ rest)
        \<and> n \<noteq> 0 \<and> ResetEvent_ret os" for os dce s n
    using that run_poll_decodes [of os n recs rest path dce s] assms(1,2) conv by auto
  ultimately show ?thesis
    unfolding lines by blast
qed

theorem decode_emits_named_records_witness:
  "run_entries narrow example_path (encode_records example_records @ [1, 2, 3]) 0 []
     = Inr [[CHR ''C'', CHR '':'', CHR 0x5C, CHR ''a'', CHR ''.'', CHR ''t'', CHR ''x'', CHR ''t''],
            [CHR ''C'', CHR '':'', CHR 0x5C, CHR ''a'', CHR ''.'', CHR ''t'', CHR ''x'', CHR ''t''],
            [CHR ''C'', CHR '':'', CHR 0x5C, CHR ''a'', CHR ''.'', CHR ''t'', CHR ''x'', CHR ''t'']]"
proof -
  have "example_records \<noteq> []"
    by (simp add: example_records_def)
  moreover have "\<forall>r\<in>set example_records. record_size r < 2 ^ 32"
    by (simp add: example_records_def record_size_def)
  moreover have "\<forall>r\<in>set example_records. rec_name r \<noteq> []
           \<longrightarrow> narrow (c_str (example_path @ [backslash] @ rec_name r)) \<noteq> None"
    by (simp add: example_records_def example_path_def narrow_def c_str_def backslash_def)
  ultimately have "run_entries narrow example_path (encode_records example_records @ [1, 2, 3]) 0 []
           = Inr ([] @ map (\<lambda>r. the (narrow (c_str (example_path @ [backslash] @ rec_name r))))
                          (filter (\<lambda>r. rec_name r \<noteq> []) example_records))"
    using decode_emits_named_records [of example_records narrow example_path "[1, 2, 3]" "[]"]
    by blast
  moreover have "[] @ map (\<lambda>r. the (narrow (c_str (example_path @ [backslash] @ rec_name r))))
                          (filter (\<lambda>r. rec_name r \<noteq> []) example_records)
     = [[CHR ''C'', CHR '':'', CHR 0x5C, CHR ''a'', CHR ''.'', CHR ''t'', CHR ''x'', CHR ''t''],
        [CHR ''C'', CHR '':'', CHR 0x5C, CHR ''a'', CHR ''.'', CHR ''t'', CHR ''x'', CHR ''t''],
        [CHR ''C'', CHR '':'', CHR 0x5C, CHR ''a'', CHR ''.'', CHR ''t'', CHR ''x'', CHR ''t'']]"
    by code_simp
  ultimately show ?thesis
    by (simp only:)
qed

text \<open>
  C2 as stated fails: a buffer holding one well-formed record whose name is empty yields
  no line at all.
\<close>

theorem decode_emits_named_records_counterexample:
  "run_entries narrow example_path (encode_records [unnamed_record]) 0 [] = Inr []
   \<and> length [unnamed_record] = 1"
  by code_simp

text \<open>
  C10. A record whose name length is zero produces no output and no error, and decoding
  goes on behind it: a buffer with such a record among its records decodes like the buffer
  of the remaining records, and to no output when there are no others.
\<close>

theorem empty_name_record_skipped:
  assumes "rec_name r = []" and "\<forall>x\<in>set (xs @ r # ys). record_size x < 2 ^ 32"
  shows "run_entries conv path (encode_records (xs @ r # ys) @ rest) 0 out
           = (if xs @ ys = [] then Inr out
              else run_entries conv path (encode_records (xs @ ys) @ rest') 0 out)"
proof -
  have "run_entries conv path (encode_records (xs @ r # ys) @ rest) 0 out
          = emit_records conv path (xs @ r # ys) out"
    using assms(2) by (intro run_entries_encode0) simp_all
  also have "\<dots> = emit_records conv path (xs @ ys) out"
    using assms(1) by (rule emit_records_skip)
  finally have skip: "run_entries conv path (encode_records (xs @ r # ys) @ rest) 0 out
          = emit_records conv path (xs @ ys) out" .
  show ?thesis
  proof (cases "xs @ ys = []")
    case True
    then show ?thesis using skip by simp
  next
    case False
    have "\<forall>x\<in>set (xs @ ys). record_size x < 2 ^ 32"
      using assms(2) by auto
    with False have "run_entries conv path (encode_records (xs @ ys) @ rest') 0 out
          = emit_records conv path (xs @ ys) out"
      by (rule run_entries_encode0)
    then show ?thesis using skip False by simp
  qed
qed

theorem empty_name_record_skipped_witness:
  "run_entries narrow example_path
       (encode_records (take 1 example_records @ unnamed_record # drop 2 example_records)) 0 []
     = Inr [[CHR ''C'', CHR '':'', CHR 0x5C, CHR ''a'', CHR ''.'', CHR ''t'', CHR ''x'', CHR ''t''],
            [CHR ''C'', CHR '':'', CHR 0x5C, CHR ''a'', CHR ''.'', CHR ''t'', CHR ''x'', CHR ''t'']]"
proof -
  have "rec_name unnamed_record = []"
    by (simp add: unnamed_record_def)
  moreover have "\<forall>x\<in>set (take 1 example_records @ unnamed_record # drop 2 example_records).
                   record_size x < 2 ^ 32"
    by (simp add: example_records_def unnamed_record_def record_size_def)
  ultimately have "run_entries narrow example_path
       (encode_records (take 1 example_records @ unnamed_record # drop 2 example_records) @ []) 0 []
     = (if take 1 example_records @ drop 2 example_records = [] then Inr []
        else run_entries narrow example_path
               (encode_records (take 1 example_records @ drop 2 example_records) @ []) 0 [])"
    by (rule empty_name_record_skipped)
  moreover have "run_entries narrow example_path
               (encode_records (take 1 example_records @ drop 2 example_records) @ []) 0 []
     = Inr [[CHR ''C'', CHR '':'', CHR 0x5C, CHR ''a'', CHR ''.'', CHR ''t'', CHR ''x'', CHR ''t''],
            [CHR ''C'', CHR '':'', CHR 0x5C, CHR ''a'', CHR ''.'', CHR ''t'', CHR ''x'', CHR ''t'']]"
    by code_simp
  moreover have "take 1 example_records @ drop 2 example_records \<noteq> []"
    by (simp add: example_records_def)
  ultimately show ?thesis by simp
qed

lemma FileName_of_field:
  assumes "p + 12 + len \<le> length buf"
  shows "FileName buf p (len div sizeof_wchar_t)
           = read_wstring (take len (drop (p + 12) buf)) 0 (len div sizeof_wchar_t)"
proof -
  let ?n = "len div sizeof_wchar_t"
  have n2: "2 * ?n \<le> len"
    by (simp add: sizeof_wchar_t_def)
  then have bound: "p + 12 + 2 * ?n \<le> length buf"
    using assms by linarith
  have "read_wstring buf (p + 12) ?n = read_wstring (take len (drop (p + 12) buf)) 0 ?n"
  proof (rule read_wstring_cong [OF bound])
    show "0 + 2 * ?n \<le> length (take len (drop (p + 12) buf))"
      using n2 assms by simp
    show "take (2 * ?n) (drop (p + 12) buf)
            = take (2 * ?n) (drop 0 (take len (drop (p + 12) buf)))"
      using n2 by (simp add: min_def)
  qed
  then show ?thesis by (simp add: FileName_def)
qed

text \<open>
  C4. For a record at offset p whose FileNameLength is len and whose name field lies in
  the buffer, the decoded name has exactly len div sizeof(wchar\_t) characters, it is read
  from the len bytes of the name field alone, so any buffer with the same bytes there
  gives the same name, and it is the name run uses for the record.
\<close>

theorem name_length_authoritative:
  assumes "FileNameLength buf p = Some len" and "p + 12 + unat len \<le> length buf"
  shows "\<exists>name. FileName buf p (unat len div sizeof_wchar_t) = Some name
           \<and> length name = unat len div sizeof_wchar_t
           \<and> read_wstring (take (unat len) (drop (p + 12) buf)) 0 (unat len div sizeof_wchar_t)
               = Some name
           \<and> (\<forall>buf'. p + 12 + unat len \<le> length buf'
                  \<and> take (unat len) (drop (p + 12) buf') = take (unat len) (drop (p + 12) buf)
                  \<longrightarrow> FileName buf' p (unat len div sizeof_wchar_t) = Some name)
           \<and> run_entry conv path buf p out =
               (if len > 0
                then case conv (c_str (abs_path path name)) of
                       None \<Rightarrow> Inl (libfsw_exception ''WideCharToMultiByte failed.'')
                     | Some u_string \<Rightarrow> Inr (out @ [u_string])
                else Inr out)"
proof -
  let ?n = "unat len div sizeof_wchar_t"
  have "p + 12 + 2 * ?n \<le> length buf"
    using assms(2) by (simp add: sizeof_wchar_t_def)
  from read_wstring_Some [OF this] obtain name where
    name: "FileName buf p ?n = Some name" and len: "length name = ?n"
    unfolding FileName_def by blast
  have field: "read_wstring (take (unat len) (drop (p + 12) buf)) 0 ?n = Some name"
    using FileName_of_field [OF assms(2)] name by simp
  have other: "FileName buf' p ?n = Some name"
    if "p + 12 + unat len \<le> length buf'
        \<and> take (unat len) (drop (p + 12) buf') = take (unat len) (drop (p + 12) buf)" for buf'
    using that FileName_of_field [of p "unat len" buf'] field by simp
  have "run_entry conv path buf p out =
               (if len > 0
                then case conv (c_str (abs_path path name)) of
                       None \<Rightarrow> Inl (libfsw_exception ''WideCharToMultiByte failed.'')
                     | Some u_string \<Rightarrow> Inr (out @ [u_string])
                else Inr out)"
    using assms(1) name by (simp add: run_entry_def)
  then show ?thesis
    using name len field other by blast
qed

theorem name_length_authoritative_witness:
  "FileNameLength (encode_records example_records) 0 = Some 10
   \<and> FileName (encode_records example_records) 0 5 = Some [97, 46, 116, 120, 116]
   \<and> FileName (take 22 (encode_records example_records) @ [255, 255, 255]) 0 5
       = Some [97, 46, 116, 120, 116]"
proof -
  have len: "FileNameLength (encode_records example_records) 0 = Some 10"
    by code_simp
  have bound: "0 + 12 + unat (10 :: DWORD) \<le> length (encode_records example_records)"
    by code_simp
  have here: "FileName (encode_records example_records) 0 5 = Some [97, 46, 116, 120, 116]"
    by code_simp
  have same: "0 + 12 + unat (10 :: DWORD) \<le> length (take 22 (encode_records example_records) @ [255, 255, 255])
      \<and> take (unat (10 :: DWORD)) (drop (0 + 12) (take 22 (encode_records example_records) @ [255, 255, 255]))
          = take (unat (10 :: DWORD)) (drop (0 + 12) (encode_records example_records))"
    by code_simp
  let ?other = "take 22 (encode_records example_records) @ [255, 255, 255]"
  from name_length_authoritative [OF len bound, of narrow example_path "[]"] obtain name where
    name: "FileName (encode_records example_records) 0 (unat (10 :: DWORD) div sizeof_wchar_t) = Some name"
    and indep: "\<forall>buf'. 0 + 12 + unat (10 :: DWORD) \<le> length buf'
           \<and> take (unat (10 :: DWORD)) (drop (0 + 12) buf')
               = take (unat (10 :: DWORD)) (drop (0 + 12) (encode_records example_records))
           \<longrightarrow> FileName buf' 0 (unat (10 :: DWORD) div sizeof_wchar_t) = Some name"
    by blast
  have five: "unat (10 :: DWORD) div sizeof_wchar_t = 5"
    by (simp add: sizeof_wchar_t_def)
  have "FileName ?other 0 (unat (10 :: DWORD) div sizeof_wchar_t) = Some name"
    using indep same by blast
  then have "FileName ?other 0 5 = Some [97, 46, 116, 120, 116]"
    using name here unfolding five by simp
  with len here show ?thesis by blast
qed

subsection \<open>Fatal conditions\<close>

lemma run_poll_fatal:
  "run_poll os path dce s = Inl (libfsw_exception m) \<longleftrightarrow>
     (\<exists>n bytes. GetOverlappedResult_ret os = Inr (n, bytes)
        \<and> ((n \<noteq> 0 \<and> run_entries (WideCharToMultiByte os) path bytes 0 (cout s)
                       = Inl (libfsw_exception m))
            \<or> ((n = 0 \<or> (\<exists>out. run_entries (WideCharToMultiByte os) path bytes 0 (cout s) = Inr out))
                 \<and> \<not> ResetEvent_ret os \<and> m = ''::ResetEvent failed.'')))"
  by (cases "GetOverlappedResult_ret os")
     (auto simp add: run_poll_def Let_def split: sum.splits prod.splits)

lemma init_search_for_path_fatal:
  assumes "dce_by_path s path = None"
  shows "init_search_for_path os path s = Inl e
           \<longleftrightarrow> allocation_fails os path s \<and> e = libfsw_exception ''::malloc failed.''"
  using assms
  by (auto simp add: init_search_for_path_def allocation_fails_def Let_def
        DirectoryChangeEvent_new_def CHandle_assign_def CHandle_move_assign_def
        split: option.splits sum.splits prod.splits)

lemma init_search_for_path_True_opens:
  assumes "dce_by_path s path = None" and "init_search_for_path os path s = Inr (True, s1)"
  shows "opens os"
  using assms
  by (auto simp add: init_search_for_path_def opens_def Let_def
        DirectoryChangeEvent_new_def CHandle_assign_def CHandle_move_assign_def
        split: option.splits sum.splits prod.splits if_splits)

lemma run_path_fatal:
  "run_path os path s = Inl (libfsw_exception m) \<longleftrightarrow>
     (allocation_fails os path s \<and> m = ''::malloc failed.'')
   \<or> (polled os path s
        \<and> (\<exists>n bytes. GetOverlappedResult_ret os = Inr (n, bytes)
             \<and> ((n \<noteq> 0 \<and> run_entries (WideCharToMultiByte os) path bytes 0 (cout s)
                            = Inl (libfsw_exception m))
                 \<or> ((n = 0 \<or> (\<exists>out. run_entries (WideCharToMultiByte os) path bytes 0 (cout s) = Inr out))
                      \<and> \<not> ResetEvent_ret os \<and> m = ''::ResetEvent failed.''))))"
  (is "?lhs \<longleftrightarrow> ?alloc \<or> (polled os path s \<and> ?poll)")
proof (cases "dce_by_path s path")
  case (Some dce)
  then have "\<not> allocation_fails os path s" "polled os path s"
    by (simp_all add: allocation_fails_def polled_def)
  then show ?thesis
    using Some run_poll_fatal [of os path dce s m] by (simp add: run_path_present)
next
  case None
  show ?thesis
  proof (cases "opens os")
    case True
    from init_search_for_path_opens [OF True None] obtain s1 dce where
      init: "init_search_for_path os path s = Inr (True, s1)"
      and dce: "dce_by_path s1 path = Some dce" and out: "cout s1 = cout s"
      by blast
    have "\<not> allocation_fails os path s"
      using init init_search_for_path_fatal [OF None, of os "libfsw_exception ''::malloc failed.''"]
      by simp
    moreover have "polled os path s" using True by (simp add: polled_def)
    moreover have "run_path os path s = run_poll os path dce s1"
      using None init dce by (simp add: run_path_def)
    ultimately show ?thesis
      using run_poll_fatal [of os path dce s1 m] out by simp
  next
    case False
    then have np: "\<not> polled os path s" using None by (simp add: polled_def)
    show ?thesis
    proof (cases "init_search_for_path os path s")
      case (Inl e)
      then show ?thesis
        using None np init_search_for_path_fatal [OF None, of os e]
        by (auto simp add: run_path_def)
    next
      case (Inr r)
      obtain ok s1 where r: "r = (ok, s1)" by (cases r)
      have "\<not> ok"
        using False init_search_for_path_True_opens [OF None, of os s1] Inr r by auto
      moreover have "\<not> allocation_fails os path s"
        using Inr init_search_for_path_fatal [OF None, of os "libfsw_exception ''::malloc failed.''"]
        by simp
      ultimately show ?thesis
        using None np Inr r by (simp add: run_path_def)
    qed
  qed
qed

lemma run_entry_fatal:
  assumes "run_entry conv path buf p out = Inl (libfsw_exception m)"
  shows "m = ''WideCharToMultiByte failed.'' \<and> (\<exists>name. conv (c_str (abs_path path name)) = None)"
  using assms
  by (auto simp add: run_entry_def split: option.splits if_splits)

lemma run_entries_fatal:
  assumes "run_entries conv path buf p out = Inl (libfsw_exception m)"
  shows "m = ''WideCharToMultiByte failed.'' \<and> (\<exists>name. conv (c_str (abs_path path name)) = None)"
  using assms
proof (induction conv path buf p out rule: run_entries.induct)
  case (1 conv path buf p out)
  show ?case
  proof (cases "run_entry conv path buf p out")
    case (Inl e)
    then have "run_entry conv path buf p out = Inl (libfsw_exception m)"
      using "1.prems" by (subst (asm) run_entries.simps) simp
    then show ?thesis by (rule run_entry_fatal)
  next
    case (Inr out')
    then obtain off where off: "NextEntryOffset buf p = Some off" and nz: "off \<noteq> 0"
      and rec: "run_entries conv path buf (p + unat off) out' = Inl (libfsw_exception m)"
      using "1.prems" by (subst (asm) run_entries.simps) (auto split: option.splits if_splits)
    show ?thesis
      using "1.IH" [OF Inr off nz rec] .
  qed
qed

lemma run_path_fatal_message:
  assumes "run_path os path s = Inl (libfsw_exception m)"
  shows "m \<in> loop_fatal"
  using assms run_entries_fatal [of "WideCharToMultiByte os" path _ 0 "cout s" m]
  unfolding run_path_fatal loop_fatal_def by auto

lemma run_paths_fatal_message:
  assumes "run_paths os ps s = Inl (libfsw_exception m)"
  shows "m \<in> loop_fatal"
  using assms
proof (induction ps arbitrary: s)
  case Nil
  then show ?case by simp
next
  case (Cons p ps)
  show ?case
  proof (cases "run_path (os p) p s")
    case (Inl e)
    then show ?thesis
      using Cons.prems run_path_fatal_message [of "os p" p s m] by simp
  next
    case (Inr s')
    then show ?thesis
      using Cons.prems Cons.IH [of s'] by simp
  qed
qed

lemma run_loop_fatal_message:
  assumes "run_loop os fuel tick s = Inl (libfsw_exception m)"
  shows "m \<in> loop_fatal"
  using assms
proof (induction fuel arbitrary: tick s)
  case 0
  then show ?case by simp
next
  case (Suc fuel)
  show ?case
  proof (cases "run_paths (os tick) (win_paths s) s")
    case (Inl e)
    then show ?thesis
      using Suc.prems run_paths_fatal_message [of "os tick" "win_paths s" s m] by simp
  next
    case (Inr s')
    then show ?thesis
      using Suc.prems Suc.IH [of "Suc tick" s'] by simp
  qed
qed

lemma initialize_windows_path_list_result:
  "(\<exists>p\<in>set ps. cygwin_create_path st p = None)
     \<longrightarrow> initialize_windows_path_list st ps s
           = Inl (libfsw_exception ''cygwin_create_path could not allocate memory.'')"
  "(\<forall>p\<in>set ps. cygwin_create_path st p \<noteq> None)
     \<longrightarrow> (\<exists>s'. initialize_windows_path_list st ps s = Inr s'
            \<and> set (win_paths s') = set (win_paths s)
                  \<union> (\<lambda>p. c_str (the (cygwin_create_path st p))) ` set ps)"
proof (induction ps arbitrary: s)
  case Nil
  { case 1 show ?case by simp }
  { case 2 show ?case by simp }
next
  case (Cons p ps)
  { case 1
    show ?case
    proof (cases "cygwin_create_path st p")
      case None
      then show ?thesis by simp
    next
      case (Some w)
      then show ?thesis using Cons.IH(1) by auto
    qed }
  { case 2
    show ?case
    proof
      assume all: "\<forall>q\<in>set (p # ps). cygwin_create_path st q \<noteq> None"
      then obtain w where w: "cygwin_create_path st p = Some w" by auto
      let ?s1 = "s\<lparr>win_paths := (if c_str w \<in> set (win_paths s) then win_paths s
                              else win_paths s @ [c_str w])\<rparr>"
      from all Cons.IH(2) [of ?s1] obtain s' where
        "initialize_windows_path_list st ps ?s1 = Inr s'"
        and "set (win_paths s') = set (win_paths ?s1)
                  \<union> (\<lambda>p. c_str (the (cygwin_create_path st p))) ` set ps"
        by auto
      then show "\<exists>s'. initialize_windows_path_list st (p # ps) s = Inr s'
            \<and> set (win_paths s') = set (win_paths s)
                  \<union> (\<lambda>p. c_str (the (cygwin_create_path st p))) ` set (p # ps)"
        using w by auto
    qed }
qed

lemma initialize_events_result:
  "initialize_events st ws s = Inl e
     \<longleftrightarrow> (\<exists>w\<in>set ws. CreateEvent_ret st w = nullptr) \<and> e = libfsw_exception ''CreateEvent failed.''"
  by (induction ws arbitrary: s) (auto simp add: Let_def split: option.splits)

lemma initialize_windows_path_list_fatal:
  "initialize_windows_path_list st ps s = Inl e
     \<Longrightarrow> e = libfsw_exception ''cygwin_create_path could not allocate memory.''"
  by (induction ps arbitrary: s) (auto split: option.splits)

lemma run_fatal_message:
  assumes "run st os fuel s = Inl (libfsw_exception m)"
  shows "m \<in> {''cygwin_create_path could not allocate memory.'', ''CreateEvent failed.'',
              ''::malloc failed.'', ''::ResetEvent failed.'', ''WideCharToMultiByte failed.''}"
proof (cases "initialize_windows_path_list st (paths s) s")
  case (Inl e)
  then show ?thesis
    using assms initialize_windows_path_list_fatal [OF Inl]
    by (simp add: run_def)
next
  case (Inr s1)
  note s1 = this
  show ?thesis
  proof (cases "initialize_events st (win_paths s1) s1")
    case (Inl e)
    then show ?thesis
      using assms s1 initialize_events_result [of st "win_paths s1" s1 e]
      by (simp add: run_def)
  next
    case (Inr s2)
    then have "run_loop os fuel 0 s2 = Inl (libfsw_exception m)"
      using assms s1 by (simp add: run_def)
    then have "m \<in> loop_fatal"
      by (rule run_loop_fatal_message)
    then show ?thesis
      by (auto simp add: loop_fatal_def)
  qed
qed

lemma run_start_fatal:
  "(\<exists>p\<in>set (paths s). cygwin_create_path st p = None)
     \<longrightarrow> run st os fuel s = Inl (libfsw_exception ''cygwin_create_path could not allocate memory.'')"
  "(\<forall>p\<in>set (paths s). cygwin_create_path st p \<noteq> None)
   \<and> (\<exists>w\<in>set (win_paths s) \<union> (\<lambda>p. c_str (the (cygwin_create_path st p))) ` set (paths s).
         CreateEvent_ret st w = nullptr)
     \<longrightarrow> run st os fuel s = Inl (libfsw_exception ''CreateEvent failed.'')"
proof -
  show "(\<exists>p\<in>set (paths s). cygwin_create_path st p = None)
     \<longrightarrow> run st os fuel s = Inl (libfsw_exception ''cygwin_create_path could not allocate memory.'')"
    using initialize_windows_path_list_result(1) [of "paths s" st s]
    by (simp add: run_def)
next
  show "(\<forall>p\<in>set (paths s). cygwin_create_path st p \<noteq> None)
   \<and> (\<exists>w\<in>set (win_paths s) \<union> (\<lambda>p. c_str (the (cygwin_create_path st p))) ` set (paths s).
         CreateEvent_ret st w = nullptr)
     \<longrightarrow> run st os fuel s = Inl (libfsw_exception ''CreateEvent failed.'')"
  proof
    assume a: "(\<forall>p\<in>set (paths s). cygwin_create_path st p \<noteq> None)
   \<and> (\<exists>w\<in>set (win_paths s) \<union> (\<lambda>p. c_str (the (cygwin_create_path st p))) ` set (paths s).
         CreateEvent_ret st w = nullptr)"
    with initialize_windows_path_list_result(2) [of "paths s" st s] obtain s1 where
      s1: "initialize_windows_path_list st (paths s) s = Inr s1"
      and wp: "set (win_paths s1) = set (win_paths s)
                  \<union> (\<lambda>p. c_str (the (cygwin_create_path st p))) ` set (paths s)"
      by blast
    have "\<exists>w\<in>set (win_paths s1). CreateEvent_ret st w = nullptr"
      using a unfolding wp by blast
    then have "initialize_events st (win_paths s1) s1 = Inl (libfsw_exception ''CreateEvent failed.'')"
      using initialize_events_result [of st "win_paths s1" s1 "libfsw_exception ''CreateEvent failed.''"]
      by simp
    then show "run st os fuel s = Inl (libfsw_exception ''CreateEvent failed.'')"
      using s1 by (simp add: run_def)
  qed
qed

lemma emit_records_fails:
  assumes "\<exists>r\<in>set recs. rec_name r \<noteq> [] \<and> conv (c_str (abs_path path (rec_name r))) = None"
  shows "emit_records conv path recs out = Inl (libfsw_exception ''WideCharToMultiByte failed.'')"
  using assms
  by (induction recs arbitrary: out) (auto split: option.splits)

lemma run_entries_conversion_fails:
  assumes "FileNameLength buf p = Some len" and "0 < len"
    and "FileName buf p (unat len div sizeof_wchar_t) = Some name"
    and "conv (c_str (abs_path path name)) = None"
  shows "run_entries conv path buf p out = Inl (libfsw_exception ''WideCharToMultiByte failed.'')"
  using assms by (subst run_entries.simps) (simp add: run_entry_def)

lemma run_path_conversion_fails:
  assumes "polled os path s"
    and "GetOverlappedResult_ret os = Inr (n, encode_records recs @ rest)" and "n \<noteq> 0"
    and "recs \<noteq> []" and "\<forall>r\<in>set recs. record_size r < 2 ^ 32"
    and "\<exists>r\<in>set recs. rec_name r \<noteq> []
           \<and> WideCharToMultiByte os (c_str (abs_path path (rec_name r))) = None"
  shows "run_path os path s = Inl (libfsw_exception ''WideCharToMultiByte failed.'')"
proof -
  have "run_entries (WideCharToMultiByte os) path (encode_records recs @ rest) 0 (cout s)
          = Inl (libfsw_exception ''WideCharToMultiByte failed.'')"
    using run_entries_encode0 [OF assms(4,5)] emit_records_fails [OF assms(6)] by simp
  then show ?thesis
    unfolding run_path_fatal using assms(1,2,3) by simp
qed

lemma run_paths_raises:
  "run_paths answers ps s = Inl e \<longleftrightarrow>
     (\<exists>pre p post s1. ps = pre @ p # post \<and> run_paths answers pre s = Inr s1
        \<and> run_path (answers p) p s1 = Inl e)"
proof (induction ps arbitrary: s)
  case Nil
  show ?case by simp
next
  case (Cons q qs)
  show ?case
  proof (cases "run_path (answers q) q s")
    case (Inl e')
    have "(\<exists>pre p post s1. q # qs = pre @ p # post \<and> run_paths answers pre s = Inr s1
        \<and> run_path (answers p) p s1 = Inl e) \<longleftrightarrow> e' = e"
    proof
      assume "\<exists>pre p post s1. q # qs = pre @ p # post \<and> run_paths answers pre s = Inr s1
        \<and> run_path (answers p) p s1 = Inl e"
      then obtain pre p post s1 where eq: "q # qs = pre @ p # post"
        and before: "run_paths answers pre s = Inr s1"
        and here: "run_path (answers p) p s1 = Inl e"
        by blast
      show "e' = e"
      proof (cases pre)
        case Nil
        then show ?thesis using eq before here Inl by simp
      next
        case (Cons x xs)
        then show ?thesis using eq before Inl by simp
      qed
    next
      assume "e' = e"
      then have "q # qs = [] @ q # qs \<and> run_paths answers [] s = Inr s
        \<and> run_path (answers q) q s = Inl e"
        using Inl by simp
      then show "\<exists>pre p post s1. q # qs = pre @ p # post \<and> run_paths answers pre s = Inr s1
        \<and> run_path (answers p) p s1 = Inl e"
        by blast
    qed
    then show ?thesis using Inl by auto
  next
    case (Inr s')
    have "(\<exists>pre p post s1. q # qs = pre @ p # post \<and> run_paths answers pre s = Inr s1
        \<and> run_path (answers p) p s1 = Inl e)
      \<longleftrightarrow> (\<exists>pre p post s1. qs = pre @ p # post \<and> run_paths answers pre s' = Inr s1
        \<and> run_path (answers p) p s1 = Inl e)"
    proof
      assume "\<exists>pre p post s1. q # qs = pre @ p # post \<and> run_paths answers pre s = Inr s1
        \<and> run_path (answers p) p s1 = Inl e"
      then obtain pre p post s1 where eq: "q # qs = pre @ p # post"
        and before: "run_paths answers pre s = Inr s1"
        and here: "run_path (answers p) p s1 = Inl e"
        by blast
      show "\<exists>pre p post s1. qs = pre @ p # post \<and> run_paths answers pre s' = Inr s1
        \<and> run_path (answers p) p s1 = Inl e"
      proof (cases pre)
        case Nil
        then show ?thesis using eq before here Inr by simp
      next
        case (Cons x xs)
        then have "qs = xs @ p # post \<and> run_paths answers xs s' = Inr s1"
          using eq before Inr by simp
        then show ?thesis using here by blast
      qed
    next
      assume "\<exists>pre p post s1. qs = pre @ p # post \<and> run_paths answers pre s' = Inr s1
        \<and> run_path (answers p) p s1 = Inl e"
      then obtain pre p post s1 where eq: "qs = pre @ p # post"
        and before: "run_paths answers pre s' = Inr s1"
        and here: "run_path (answers p) p s1 = Inl e"
        by blast
      have "q # qs = (q # pre) @ p # post \<and> run_paths answers (q # pre) s = Inr s1"
        using eq before Inr by simp
      then show "\<exists>pre p post s1. q # qs = pre @ p # post \<and> run_paths answers pre s = Inr s1
        \<and> run_path (answers p) p s1 = Inl e"
        using here by blast
    qed
    then show ?thesis using Inr Cons.IH [of s'] by simp
  qed
qed

lemma run_loop_raises:
  "run_loop answers fuel tick s = Inl e \<longleftrightarrow>
     (\<exists>k s1. k < fuel \<and> run_loop answers k tick s = Inr s1
        \<and> run_paths (answers (tick + k)) (win_paths s1) s1 = Inl e)"
proof (induction fuel arbitrary: tick s)
  case 0
  show ?case by simp
next
  case (Suc fuel)
  show ?case
  proof (cases "run_paths (answers tick) (win_paths s) s")
    case (Inl e')
    have "(\<exists>k s1. k < Suc fuel \<and> run_loop answers k tick s = Inr s1
        \<and> run_paths (answers (tick + k)) (win_paths s1) s1 = Inl e) \<longleftrightarrow> e' = e"
    proof
      assume "\<exists>k s1. k < Suc fuel \<and> run_loop answers k tick s = Inr s1
        \<and> run_paths (answers (tick + k)) (win_paths s1) s1 = Inl e"
      then obtain k s1 where k: "k < Suc fuel" and before: "run_loop answers k tick s = Inr s1"
        and here: "run_paths (answers (tick + k)) (win_paths s1) s1 = Inl e"
        by blast
      show "e' = e"
      proof (cases k)
        case 0
        then show ?thesis using before here Inl by simp
      next
        case (Suc k')
        then show ?thesis using before Inl by simp
      qed
    next
      assume "e' = e"
      then have "0 < Suc fuel \<and> run_loop answers 0 tick s = Inr s
        \<and> run_paths (answers (tick + 0)) (win_paths s) s = Inl e"
        using Inl by simp
      then show "\<exists>k s1. k < Suc fuel \<and> run_loop answers k tick s = Inr s1
        \<and> run_paths (answers (tick + k)) (win_paths s1) s1 = Inl e"
        by blast
    qed
    then show ?thesis using Inl by auto
  next
    case (Inr s')
    have "(\<exists>k s1. k < Suc fuel \<and> run_loop answers k tick s = Inr s1
        \<and> run_paths (answers (tick + k)) (win_paths s1) s1 = Inl e)
      \<longleftrightarrow> (\<exists>k s1. k < fuel \<and> run_loop answers k (Suc tick) s' = Inr s1
        \<and> run_paths (answers (Suc tick + k)) (win_paths s1) s1 = Inl e)"
    proof
      assume "\<exists>k s1. k < Suc fuel \<and> run_loop answers k tick s = Inr s1
        \<and> run_paths (answers (tick + k)) (win_paths s1) s1 = Inl e"
      then obtain k s1 where k: "k < Suc fuel" and before: "run_loop answers k tick s = Inr s1"
        and here: "run_paths (answers (tick + k)) (win_paths s1) s1 = Inl e"
        by blast
      show "\<exists>k s1. k < fuel \<and> run_loop answers k (Suc tick) s' = Inr s1
        \<and> run_paths (answers (Suc tick + k)) (win_paths s1) s1 = Inl e"
      proof (cases k)
        case 0
        then show ?thesis using before here Inr by simp
      next
        case (Suc k')
        then have "k' < fuel \<and> run_loop answers k' (Suc tick) s' = Inr s1
          \<and> run_paths (answers (Suc tick + k')) (win_paths s1) s1 = Inl e"
          using k before here Inr by simp
        then show ?thesis by blast
      qed
    next
      assume "\<exists>k s1. k < fuel \<and> run_loop answers k (Suc tick) s' = Inr s1
        \<and> run_paths (answers (Suc tick + k)) (win_paths s1) s1 = Inl e"
      then obtain k s1 where k: "k < fuel" and before: "run_loop answers k (Suc tick) s' = Inr s1"
        and here: "run_paths (answers (Suc tick + k)) (win_paths s1) s1 = Inl e"
        by blast
      have "Suc k < Suc fuel \<and> run_loop answers (Suc k) tick s = Inr s1
        \<and> run_paths (answers (tick + Suc k)) (win_paths s1) s1 = Inl e"
        using k before here Inr by simp
      then show "\<exists>k s1. k < Suc fuel \<and> run_loop answers k tick s = Inr s1
        \<and> run_paths (answers (tick + k)) (win_paths s1) s1 = Inl e"
        by blast
    qed
    then show ?thesis using Inr Suc.IH [of "Suc tick" s'] by simp
  qed
qed

lemma run_raises:
  "run st answers fuel s = Inl e \<longleftrightarrow>
     initialize_windows_path_list st (paths s) s = Inl e
   \<or> (\<exists>s1. initialize_windows_path_list st (paths s) s = Inr s1
         \<and> (initialize_events st (win_paths s1) s1 = Inl e
             \<or> (\<exists>s2. initialize_events st (win_paths s1) s1 = Inr s2
                   \<and> run_loop answers fuel 0 s2 = Inl e)))"
  by (auto simp add: run_def split: sum.splits)

text \<open>
  C7, as the code has it. While the loop handles a path, a libfsw\_exception is raised
  exactly when a malloc of the notification buffer or of the OVERLAPPED structure fails
  during initialization, when the decoder raises, or when ResetEvent fails after a
  successful read. The decoder raises as soon as the name of the record it is at does not
  convert, so a polled buffer of well-formed records with a name that does not convert is
  fatal; and it raises for no other reason. Such an error ends the whole watch, not the
  path: a tick raises an error exactly when the visit of one of its paths raises it after
  the paths before it were handled, the loop raises an error exactly when one of its ticks
  does after the ticks before it completed, and run raises an error exactly when its
  start or its loop does. So the loop raises only these three errors. Before the loop,
  run also raises a terminating error when cygwin\_create\_path cannot allocate a native
  path and when CreateEvent fails, and run raises no other error.
\<close>

theorem fatal_conditions:
  "(run_path os path s = Inl (libfsw_exception m) \<longleftrightarrow>
       (allocation_fails os path s \<and> m = ''::malloc failed.'')
     \<or> (polled os path s
          \<and> (\<exists>n bytes. GetOverlappedResult_ret os = Inr (n, bytes)
               \<and> ((n \<noteq> 0 \<and> run_entries (WideCharToMultiByte os) path bytes 0 (cout s)
                              = Inl (libfsw_exception m))
                   \<or> ((n = 0 \<or> (\<exists>out. run_entries (WideCharToMultiByte os) path bytes 0 (cout s)
                                         = Inr out))
                        \<and> \<not> ResetEvent_ret os \<and> m = ''::ResetEvent failed.'')))))
   \<and> (\<forall>conv buf p out len name.
          FileNameLength buf p = Some len \<and> 0 < len
          \<and> FileName buf p (unat len div sizeof_wchar_t) = Some name
          \<and> conv (c_str (abs_path path name)) = None
          \<longrightarrow> run_entries conv path buf p out
                = Inl (libfsw_exception ''WideCharToMultiByte failed.''))
   \<and> (\<forall>n recs rest.
          polled os path s
          \<and> GetOverlappedResult_ret os = Inr (n, encode_records recs @ rest) \<and> n \<noteq> 0
          \<and> recs \<noteq> [] \<and> (\<forall>r\<in>set recs. record_size r < 2 ^ 32)
          \<and> (\<exists>r\<in>set recs. rec_name r \<noteq> []
                \<and> WideCharToMultiByte os (c_str (abs_path path (rec_name r))) = None)
          \<longrightarrow> run_path os path s = Inl (libfsw_exception ''WideCharToMultiByte failed.''))
   \<and> (\<forall>conv buf p out. run_entries conv path buf p out = Inl (libfsw_exception m)
          \<longrightarrow> m = ''WideCharToMultiByte failed.''
              \<and> (\<exists>name. conv (c_str (abs_path path name)) = None))
   \<and> (\<forall>visit ps e. run_paths visit ps s = Inl e \<longleftrightarrow>
          (\<exists>pre p post s1. ps = pre @ p # post \<and> run_paths visit pre s = Inr s1
             \<and> run_path (visit p) p s1 = Inl e))
   \<and> (\<forall>e. run_loop answers fuel tick s = Inl e \<longleftrightarrow>
          (\<exists>k s1. k < fuel \<and> run_loop answers k tick s = Inr s1
             \<and> run_paths (answers (tick + k)) (win_paths s1) s1 = Inl e))
   \<and> (\<forall>e. run st answers fuel s = Inl e \<longleftrightarrow>
          initialize_windows_path_list st (paths s) s = Inl e
        \<or> (\<exists>s1. initialize_windows_path_list st (paths s) s = Inr s1
              \<and> (initialize_events st (win_paths s1) s1 = Inl e
                  \<or> (\<exists>s2. initialize_events st (win_paths s1) s1 = Inr s2
                        \<and> run_loop answers fuel 0 s2 = Inl e))))
   \<and> (run_loop answers fuel tick s = Inl (libfsw_exception m)
          \<longrightarrow> m \<in> {''::malloc failed.'', ''::ResetEvent failed.'', ''WideCharToMultiByte failed.''})
   \<and> (run st answers fuel s = Inl (libfsw_exception m)
          \<longrightarrow> m \<in> {''cygwin_create_path could not allocate memory.'', ''CreateEvent failed.'',
                    ''::malloc failed.'', ''::ResetEvent failed.'', ''WideCharToMultiByte failed.''})
   \<and> ((\<exists>p\<in>set (paths s). cygwin_create_path st p = None)
          \<longrightarrow> run st answers fuel s
                = Inl (libfsw_exception ''cygwin_create_path could not allocate memory.''))
   \<and> ((\<forall>p\<in>set (paths s). cygwin_create_path st p \<noteq> None)
        \<and> (\<exists>w\<in>set (win_paths s) \<union> (\<lambda>p. c_str (the (cygwin_create_path st p))) ` set (paths s).
              CreateEvent_ret st w = nullptr)
          \<longrightarrow> run st answers fuel s = Inl (libfsw_exception ''CreateEvent failed.''))"
proof (intro conjI)
  show "run_path os path s = Inl (libfsw_exception m) \<longleftrightarrow>
       (allocation_fails os path s \<and> m = ''::malloc failed.'')
     \<or> (polled os path s
          \<and> (\<exists>n bytes. GetOverlappedResult_ret os = Inr (n, bytes)
               \<and> ((n \<noteq> 0 \<and> run_entries (WideCharToMultiByte os) path bytes 0 (cout s)
                              = Inl (libfsw_exception m))
                   \<or> ((n = 0 \<or> (\<exists>out. run_entries (WideCharToMultiByte os) path bytes 0 (cout s)
                                         = Inr out))
                        \<and> \<not> ResetEvent_ret os \<and> m = ''::ResetEvent failed.''))))"
    by (rule run_path_fatal)
next
  show "\<forall>conv buf p out len name.
          FileNameLength buf p = Some len \<and> 0 < len
          \<and> FileName buf p (unat len div sizeof_wchar_t) = Some name
          \<and> conv (c_str (abs_path path name)) = None
          \<longrightarrow> run_entries conv path buf p out
                = Inl (libfsw_exception ''WideCharToMultiByte failed.'')"
  proof (intro allI impI)
    fix conv :: "wstring \<Rightarrow> string option" and buf p out len name
    assume "FileNameLength buf p = Some len \<and> 0 < len
          \<and> FileName buf p (unat len div sizeof_wchar_t) = Some name
          \<and> conv (c_str (abs_path path name)) = None"
    then show "run_entries conv path buf p out
                = Inl (libfsw_exception ''WideCharToMultiByte failed.'')"
      by (elim conjE) (rule run_entries_conversion_fails)
  qed
next
  show "\<forall>n recs rest.
          polled os path s
          \<and> GetOverlappedResult_ret os = Inr (n, encode_records recs @ rest) \<and> n \<noteq> 0
          \<and> recs \<noteq> [] \<and> (\<forall>r\<in>set recs. record_size r < 2 ^ 32)
          \<and> (\<exists>r\<in>set recs. rec_name r \<noteq> []
                \<and> WideCharToMultiByte os (c_str (abs_path path (rec_name r))) = None)
          \<longrightarrow> run_path os path s = Inl (libfsw_exception ''WideCharToMultiByte failed.'')"
  proof (intro allI impI)
    fix n recs rest
    assume "polled os path s
          \<and> GetOverlappedResult_ret os = Inr (n, encode_records recs @ rest) \<and> n \<noteq> 0
          \<and> recs \<noteq> [] \<and> (\<forall>r\<in>set recs. record_size r < 2 ^ 32)
          \<and> (\<exists>r\<in>set recs. rec_name r \<noteq> []
                \<and> WideCharToMultiByte os (c_str (abs_path path (rec_name r))) = None)"
    then show "run_path os path s = Inl (libfsw_exception ''WideCharToMultiByte failed.'')"
      by (elim conjE) (rule run_path_conversion_fails)
  qed
next
  show "\<forall>conv buf p out. run_entries conv path buf p out = Inl (libfsw_exception m)
          \<longrightarrow> m = ''WideCharToMultiByte failed.''
              \<and> (\<exists>name. conv (c_str (abs_path path name)) = None)"
  proof (intro allI impI)
    fix conv :: "wstring \<Rightarrow> string option" and buf p out
    assume "run_entries conv path buf p out = Inl (libfsw_exception m)"
    then show "m = ''WideCharToMultiByte failed.''
              \<and> (\<exists>name. conv (c_str (abs_path path name)) = None)"
      by (rule run_entries_fatal)
  qed
next
  show "\<forall>visit ps e. run_paths visit ps s = Inl e \<longleftrightarrow>
          (\<exists>pre p post s1. ps = pre @ p # post \<and> run_paths visit pre s = Inr s1
             \<and> run_path (visit p) p s1 = Inl e)"
    by (intro allI) (rule run_paths_raises)
next
  show "\<forall>e. run_loop answers fuel tick s = Inl e \<longleftrightarrow>
          (\<exists>k s1. k < fuel \<and> run_loop answers k tick s = Inr s1
             \<and> run_paths (answers (tick + k)) (win_paths s1) s1 = Inl e)"
    by (intro allI) (rule run_loop_raises)
next
  show "\<forall>e. run st answers fuel s = Inl e \<longleftrightarrow>
          initialize_windows_path_list st (paths s) s = Inl e
        \<or> (\<exists>s1. initialize_windows_path_list st (paths s) s = Inr s1
              \<and> (initialize_events st (win_paths s1) s1 = Inl e
                  \<or> (\<exists>s2. initialize_events st (win_paths s1) s1 = Inr s2
                        \<and> run_loop answers fuel 0 s2 = Inl e)))"
    by (intro allI) (rule run_raises)
next
  show "run_loop answers fuel tick s = Inl (libfsw_exception m)
          \<longrightarrow> m \<in> {''::malloc failed.'', ''::ResetEvent failed.'', ''WideCharToMultiByte failed.''}"
    using run_loop_fatal_message [of answers fuel tick s m] by (simp add: loop_fatal_def)
next
  show "run st answers fuel s = Inl (libfsw_exception m)
          \<longrightarrow> m \<in> {''cygwin_create_path could not allocate memory.'', ''CreateEvent failed.'',
                    ''::malloc failed.'', ''::ResetEvent failed.'', ''WideCharToMultiByte failed.''}"
    using run_fatal_message [of st answers fuel s m] by (rule impI)
next
  show "(\<exists>p\<in>set (paths s). cygwin_create_path st p = None)
          \<longrightarrow> run st answers fuel s
                = Inl (libfsw_exception ''cygwin_create_path could not allocate memory.'')"
    by (rule run_start_fatal)
next
  show "(\<forall>p\<in>set (paths s). cygwin_create_path st p \<noteq> None)
        \<and> (\<exists>w\<in>set (win_paths s) \<union> (\<lambda>p. c_str (the (cygwin_create_path st p))) ` set (paths s).
              CreateEvent_ret st w = nullptr)
          \<longrightarrow> run st answers fuel s = Inl (libfsw_exception ''CreateEvent failed.'')"
    by (rule run_start_fatal)
qed

theorem fatal_conditions_witness:
  "run_path (example_os\<lparr>GetOverlappedResult_ret := Inr (0, []), ResetEvent_ret := False\<rparr>)
       example_path example_monitor
     = Inl (libfsw_exception ''::ResetEvent failed.'')
   \<and> run_loop (\<lambda>tick path. example_os\<lparr>GetOverlappedResult_ret := Inr (0, []), ResetEvent_ret := False\<rparr>)
       3 0 example_monitor
     = Inl (libfsw_exception ''::ResetEvent failed.'')
   \<and> run_path (example_os\<lparr>GetOverlappedResult_ret
                              := Inr (16, encode_records [unconvertible_record] @ [])\<rparr>)
       example_path example_monitor
     = Inl (libfsw_exception ''WideCharToMultiByte failed.'')"
proof -
  let ?os = "example_os\<lparr>GetOverlappedResult_ret := Inr (0, []), ResetEvent_ret := False\<rparr>"
  let ?answers = "\<lambda>(tick :: nat) (path :: wstring). ?os"
  let ?conv = "example_os\<lparr>GetOverlappedResult_ret
                              := Inr (16, encode_records [unconvertible_record] @ [])\<rparr>"
  let ?reset = "libfsw_exception ''::ResetEvent failed.''"
  note visit = fatal_conditions [where os = ?os and path = example_path and s = example_monitor
      and m = "''::ResetEvent failed.''" and answers = ?answers and fuel = 3 and tick = 0]
  have polled: "polled ?os example_path example_monitor"
    by (simp add: polled_def example_monitor_def)
  moreover have "GetOverlappedResult_ret ?os = Inr (0, []) \<and> \<not> ResetEvent_ret ?os"
    by simp
  ultimately have "polled ?os example_path example_monitor
          \<and> (\<exists>n bytes. GetOverlappedResult_ret ?os = Inr (n, bytes)
               \<and> ((n \<noteq> 0 \<and> run_entries (WideCharToMultiByte ?os) example_path bytes 0 (cout example_monitor)
                              = Inl (libfsw_exception ''::ResetEvent failed.''))
                   \<or> ((n = 0 \<or> (\<exists>out. run_entries (WideCharToMultiByte ?os) example_path bytes 0 (cout example_monitor)
                                         = Inr out))
                        \<and> \<not> ResetEvent_ret ?os \<and> ''::ResetEvent failed.'' = ''::ResetEvent failed.'')))"
    by blast
  then have "(allocation_fails ?os example_path example_monitor
                \<and> ''::ResetEvent failed.'' = ''::malloc failed.'')
          \<or> (polled ?os example_path example_monitor
          \<and> (\<exists>n bytes. GetOverlappedResult_ret ?os = Inr (n, bytes)
               \<and> ((n \<noteq> 0 \<and> run_entries (WideCharToMultiByte ?os) example_path bytes 0 (cout example_monitor)
                              = Inl (libfsw_exception ''::ResetEvent failed.''))
                   \<or> ((n = 0 \<or> (\<exists>out. run_entries (WideCharToMultiByte ?os) example_path bytes 0 (cout example_monitor)
                                         = Inr out))
                        \<and> \<not> ResetEvent_ret ?os \<and> ''::ResetEvent failed.'' = ''::ResetEvent failed.''))))"
    by (rule disjI2)
  then have one: "run_path ?os example_path example_monitor = Inl ?reset"
    by (rule visit [THEN conjunct1, THEN iffD2])
  have "[example_path] = [] @ example_path # []
        \<and> run_paths (?answers 0) [] example_monitor = Inr example_monitor
        \<and> run_path (?answers 0 example_path) example_path example_monitor = Inl ?reset"
    using one by simp
  then have "\<exists>pre p post s1. [example_path] = pre @ p # post
        \<and> run_paths (?answers 0) pre example_monitor = Inr s1
        \<and> run_path (?answers 0 p) p s1 = Inl ?reset"
    by (intro exI)
  then have tick: "run_paths (?answers 0) [example_path] example_monitor = Inl ?reset"
    by (rule visit [THEN conjunct2, THEN conjunct2, THEN conjunct2, THEN conjunct2,
          THEN conjunct1, THEN spec, THEN spec, THEN spec, THEN iffD2])
  have "(0 :: nat) < 3 \<and> run_loop ?answers 0 0 example_monitor = Inr example_monitor
        \<and> run_paths (?answers (0 + 0)) (win_paths example_monitor) example_monitor = Inl ?reset"
    using tick by (simp add: example_monitor_def)
  then have "\<exists>k s1. k < 3 \<and> run_loop ?answers k 0 example_monitor = Inr s1
        \<and> run_paths (?answers (0 + k)) (win_paths s1) s1 = Inl ?reset"
    by (intro exI)
  then have loop: "run_loop ?answers 3 0 example_monitor = Inl ?reset"
    by (rule visit [THEN conjunct2, THEN conjunct2, THEN conjunct2, THEN conjunct2,
          THEN conjunct2, THEN conjunct1, THEN spec, THEN iffD2])
  have "polled ?conv example_path example_monitor"
    by (simp add: polled_def example_monitor_def)
  moreover have "GetOverlappedResult_ret ?conv = Inr (16, encode_records [unconvertible_record] @ [])"
    by simp
  moreover have "(16 :: DWORD) \<noteq> 0" by simp
  moreover have "[unconvertible_record] \<noteq> []" by simp
  moreover have "\<forall>r\<in>set [unconvertible_record]. record_size r < 2 ^ 32"
    by (simp add: unconvertible_record_def record_size_def)
  moreover have "\<exists>r\<in>set [unconvertible_record]. rec_name r \<noteq> []
                \<and> WideCharToMultiByte ?conv (c_str (abs_path example_path (rec_name r))) = None"
    by (simp add: unconvertible_record_def example_os_def example_path_def narrow_def c_str_def
          abs_path_def backslash_def)
  ultimately have "polled ?conv example_path example_monitor
          \<and> GetOverlappedResult_ret ?conv = Inr (16, encode_records [unconvertible_record] @ [])
          \<and> (16 :: DWORD) \<noteq> 0
          \<and> [unconvertible_record] \<noteq> [] \<and> (\<forall>r\<in>set [unconvertible_record]. record_size r < 2 ^ 32)
          \<and> (\<exists>r\<in>set [unconvertible_record]. rec_name r \<noteq> []
                \<and> WideCharToMultiByte ?conv (c_str (abs_path example_path (rec_name r))) = None)"
    by (intro conjI)
  then have conv: "run_path ?conv example_path example_monitor
     = Inl (libfsw_exception ''WideCharToMultiByte failed.'')"
    by (rule fatal_conditions [where os = ?conv and path = example_path and s = example_monitor,
          THEN conjunct2, THEN conjunct2, THEN conjunct1, THEN spec, THEN spec, THEN spec, THEN mp])
  show ?thesis
    using one loop conv by (intro conjI)
qed

text \<open>
  C7 as stated fails: when CreateEvent fails at the start of run the watch ends with an
  error although no allocation of a buffer or header, no reset and no conversion failed.
\<close>

theorem fatal_conditions_counterexample:
  "run (example_start\<lparr>CreateEvent_ret := (\<lambda>w. nullptr)\<rparr>) (\<lambda>tick path. example_os) 1
       (windows_monitor_new [''C:''])
     = Inl (libfsw_exception ''CreateEvent failed.'')"
  by (simp add: run_def windows_monitor_new_def example_start_def Let_def)

subsection \<open>Ownership of handles\<close>

lemma closed_handles_append [simp]:
  "closed_handles (cs @ ds) = closed_handles cs @ closed_handles ds"
  by (induction cs rule: closed_handles.induct) simp_all

lemma not_valid_INVALID [simp]: "\<not> is_valid INVALID_HANDLE_VALUE"
  by (simp add: is_valid_def)

lemma CHandle_put: "(c :: CHandle)\<lparr>h := x\<rparr> = \<lparr>h = x\<rparr>"
  by (cases c) simp

lemma holds_calls [simp]: "holds (s\<lparr>os_calls := cs\<rparr>) x = holds s x"
  by (simp add: holds_def)

lemma holds_put:
  "holds (s\<lparr>objects := (objects s)(a \<mapsto> \<lparr>h = y\<rparr>)\<rparr>) x
     \<longleftrightarrow> is_valid x \<and> (x = y \<or> (\<exists>b. b \<noteq> a \<and> objects s b = Some \<lparr>h = x\<rparr>))"
  unfolding holds_def by auto

lemma holds_del:
  "holds (s\<lparr>objects := (objects s)(a := None)\<rparr>) x
     \<longleftrightarrow> is_valid x \<and> (\<exists>b. b \<noteq> a \<and> objects s b = Some \<lparr>h = x\<rparr>)"
  unfolding holds_def by auto

lemma holds_put2:
  "a \<noteq> b \<Longrightarrow>
   holds (s\<lparr>objects := (objects s)(a \<mapsto> \<lparr>h = y\<rparr>, b \<mapsto> \<lparr>h = z\<rparr>)\<rparr>) x
     \<longleftrightarrow> is_valid x \<and> (x = y \<or> x = z
           \<or> (\<exists>c. c \<noteq> a \<and> c \<noteq> b \<and> objects s c = Some \<lparr>h = x\<rparr>))"
  unfolding holds_def by auto

lemma others_absent:
  "objects s a = None \<Longrightarrow>
     (\<exists>b. b \<noteq> a \<and> objects s b = Some \<lparr>h = x\<rparr>) \<longleftrightarrow> (\<exists>b. objects s b = Some \<lparr>h = x\<rparr>)"
  by (metis option.distinct(1))

lemma others_present:
  "sole s \<Longrightarrow> objects s a = Some \<lparr>h = y\<rparr> \<Longrightarrow> is_valid x \<Longrightarrow>
     (\<exists>b. b \<noteq> a \<and> objects s b = Some \<lparr>h = x\<rparr>) \<longleftrightarrow> holds s x \<and> x \<noteq> y"
  unfolding sole_def holds_def
  by (metis CHandle.ext_inject option.inject)

lemma sole_put:
  "sole s \<Longrightarrow> (is_valid y \<Longrightarrow> \<forall>b. b \<noteq> a \<longrightarrow> objects s b \<noteq> Some \<lparr>h = y\<rparr>) \<Longrightarrow>
     sole (s\<lparr>objects := (objects s)(a \<mapsto> \<lparr>h = y\<rparr>)\<rparr>)"
  unfolding sole_def by auto

lemma sole_del:
  "sole s \<Longrightarrow> sole (s\<lparr>objects := (objects s)(a := None)\<rparr>)"
  unfolding sole_def by simp

lemma sole_calls [simp]: "sole (s\<lparr>os_calls := cs\<rparr>) = sole s"
  by (simp add: sole_def)

lemma owned_Construct:
  assumes "owned s G" and "apply_op (Construct a) s = Some s'"
  shows "owned s' G"
proof -
  from assms(2) have none: "objects s a = None"
    and s': "s' = s\<lparr>objects := (objects s)(a \<mapsto> \<lparr>h = INVALID_HANDLE_VALUE\<rparr>)\<rparr>"
    by (auto simp add: CHandle_default_def split: option.splits)
  have holds: "holds s' x \<longleftrightarrow> holds s x" for x
    unfolding s' holds_put others_absent [OF none] by (auto simp add: holds_def)
  have "sole s'"
    unfolding s' using assms(1) by (intro sole_put) (simp_all add: owned_def)
  moreover have "os_calls s' = os_calls s" by (simp add: s')
  ultimately show ?thesis
    using assms(1) unfolding owned_def holds by simp
qed

lemma owned_ConstructFrom:
  assumes "owned s G" and "apply_op (ConstructFrom a raw) s = Some s'"
    and "is_valid raw \<longrightarrow> raw \<notin> G"
  shows "owned s' (G \<union> {x. x = raw \<and> is_valid raw})"
proof -
  from assms(2) have none: "objects s a = None"
    and s': "s' = s\<lparr>objects := (objects s)(a \<mapsto> \<lparr>h = raw\<rparr>)\<rparr>"
    by (auto simp add: CHandle_from_def split: option.splits)
  have holds: "holds s' x \<longleftrightarrow> holds s x \<or> (x = raw \<and> is_valid raw)" for x
    unfolding s' holds_put others_absent [OF none] by (auto simp add: holds_def)
  have fresh: "is_valid raw \<Longrightarrow> \<not> holds s raw \<and> raw \<notin> set (closed_handles (os_calls s))"
    using assms(1,3) unfolding owned_def by blast
  have "sole s'"
    unfolding s' using assms(1) fresh by (intro sole_put) (auto simp add: owned_def holds_def)
  moreover have "os_calls s' = os_calls s" by (simp add: s')
  ultimately show ?thesis
    using assms(1) fresh unfolding owned_def holds by auto
qed

lemma owned_Destroy:
  assumes "owned s G" and "apply_op (Destroy a) s = Some s'"
  shows "owned s' G"
proof -
  from assms(2) obtain c where c: "objects s a = Some c"
    and s'c: "s' = s\<lparr>objects := (objects s)(a := None),
                     os_calls := CHandle_destroy c (os_calls s)\<rparr>"
    by (cases "objects s a") auto
  define y where "y = h c"
  have obj: "objects s a = Some \<lparr>h = y\<rparr>"
    using c by (simp add: y_def)
  have s': "s' = s\<lparr>objects := (objects s)(a := None),
                     os_calls := os_calls s @ (if is_valid y then [CloseHandle y] else [])\<rparr>"
    using s'c by (simp add: CHandle_destroy_def y_def)
  have sole: "sole s" using assms(1) by (simp add: owned_def)
  have holds: "holds s' x \<longleftrightarrow> holds s x \<and> x \<noteq> y" for x
    unfolding s' holds_calls holds_del
    using others_present [OF sole obj, of x] by (auto simp add: holds_def)
  have "sole s'"
    unfolding s' using sole by (simp add: sole_del)
  moreover have "closed_handles (os_calls s') = closed_handles (os_calls s) @ (if is_valid y then [y] else [])"
    by (simp add: s')
  moreover have "is_valid y \<Longrightarrow> holds s y"
    using obj by (auto simp add: holds_def)
  moreover have "\<not> is_valid y \<Longrightarrow> \<not> holds s y"
    by (simp add: holds_def)
  ultimately show ?thesis
    using assms(1) unfolding owned_def holds
    by auto
qed

lemma owned_AssignHandle:
  assumes "owned s G" and "apply_op (AssignHandle a raw) s = Some s'"
    and "is_valid raw \<longrightarrow> raw \<notin> G"
  shows "owned s' (G \<union> {x. x = raw \<and> is_valid raw})"
proof -
  from assms(2) obtain c where c: "objects s a = Some c"
    and s'c: "s' = s\<lparr>objects := (objects s)(a \<mapsto> c\<lparr>h := raw\<rparr>),
                     os_calls := (if is_valid (h c) then os_calls s @ [CloseHandle (h c)]
                                  else os_calls s)\<rparr>"
    by (cases "objects s a") (auto simp add: CHandle_assign_def)
  define y where "y = h c"
  have obj: "objects s a = Some \<lparr>h = y\<rparr>"
    using c by (simp add: y_def)
  have s': "s' = s\<lparr>objects := (objects s)(a \<mapsto> \<lparr>h = raw\<rparr>),
                     os_calls := os_calls s @ (if is_valid y then [CloseHandle y] else [])\<rparr>"
    using s'c by (simp add: y_def CHandle_put)
  have sole: "sole s" using assms(1) by (simp add: owned_def)
  have fresh: "is_valid raw \<Longrightarrow> \<not> holds s raw \<and> raw \<notin> set (closed_handles (os_calls s))"
    using assms(1,3) unfolding owned_def by blast
  have holds: "holds s' x \<longleftrightarrow> (holds s x \<and> x \<noteq> y) \<or> (x = raw \<and> is_valid raw)" for x
    unfolding s' holds_calls holds_put
    using others_present [OF sole obj, of x] by (auto simp add: holds_def)
  have "sole s'"
    unfolding s' sole_calls using sole fresh
    by (intro sole_put) (auto simp add: holds_def)
  moreover have "closed_handles (os_calls s') = closed_handles (os_calls s) @ (if is_valid y then [y] else [])"
    by (simp add: s')
  moreover have "is_valid y \<Longrightarrow> holds s y"
    using obj by (auto simp add: holds_def)
  moreover have "\<not> is_valid y \<Longrightarrow> \<not> holds s y"
    by (simp add: holds_def)
  ultimately show ?thesis
    using assms(1) fresh unfolding owned_def holds
    by auto
qed

lemma sole_put2:
  assumes "sole s" and "a \<noteq> b" and "objects s b = Some \<lparr>h = z\<rparr>"
  shows "sole (s\<lparr>objects := (objects s)(a \<mapsto> \<lparr>h = z\<rparr>, b \<mapsto> \<lparr>h = INVALID_HANDLE_VALUE\<rparr>)\<rparr>)"
  using assms unfolding sole_def by auto

lemma holds_moved:
  assumes "sole s" and "a \<noteq> b" and "objects s b = Some \<lparr>h = z\<rparr>"
    and "objects s a = None \<or> objects s a = Some \<lparr>h = y\<rparr>"
  shows "holds (s\<lparr>objects := (objects s)(a \<mapsto> \<lparr>h = z\<rparr>, b \<mapsto> \<lparr>h = INVALID_HANDLE_VALUE\<rparr>)\<rparr>) x
           \<longleftrightarrow> holds s x \<and> (objects s a = None \<or> x \<noteq> y)"
proof (cases "is_valid x")
  case False
  then show ?thesis by (simp add: holds_def)
next
  case True
  let ?others = "\<exists>c. c \<noteq> a \<and> c \<noteq> b \<and> objects s c = Some \<lparr>h = x\<rparr>"
  have new: "holds (s\<lparr>objects := (objects s)(a \<mapsto> \<lparr>h = z\<rparr>, b \<mapsto> \<lparr>h = INVALID_HANDLE_VALUE\<rparr>)\<rparr>) x
           \<longleftrightarrow> x = z \<or> ?others"
    unfolding holds_put2 [OF assms(2)] using True by auto
  have old: "holds s x \<longleftrightarrow> x = z \<or> objects s a = Some \<lparr>h = x\<rparr> \<or> ?others"
    unfolding holds_def using True assms(3) by auto
  have at_a: "objects s a = Some \<lparr>h = x\<rparr> \<longleftrightarrow> objects s a \<noteq> None \<and> x = y"
    using assms(4) by auto
  have apart: "objects s a \<noteq> None \<Longrightarrow> x = y \<Longrightarrow> x \<noteq> z \<and> \<not> ?others"
    using assms(1,2,3,4) True unfolding sole_def by metis
  show ?thesis
    unfolding new old at_a using apart by metis
qed

lemma owned_MoveConstruct:
  assumes "owned s G" and "apply_op (MoveConstruct a b) s = Some s'"
  shows "owned s' G"
proof -
  from assms(2) obtain d where none: "objects s a = None" and d: "objects s b = Some d"
    and s'd: "s' = s\<lparr>objects := (objects s)(a \<mapsto> \<lparr>h = h d\<rparr>,
                                            b \<mapsto> d\<lparr>h := INVALID_HANDLE_VALUE\<rparr>)\<rparr>"
    by (cases "objects s a"; cases "objects s b") (auto simp add: CHandle_move_def)
  define z where "z = h d"
  have obj: "objects s b = Some \<lparr>h = z\<rparr>"
    using d by (simp add: z_def)
  have s': "s' = s\<lparr>objects := (objects s)(a \<mapsto> \<lparr>h = z\<rparr>, b \<mapsto> \<lparr>h = INVALID_HANDLE_VALUE\<rparr>)\<rparr>"
    using s'd by (simp add: z_def CHandle_put)
  have ab: "a \<noteq> b" using none d by auto
  have sole: "sole s" using assms(1) by (simp add: owned_def)
  have holds: "holds s' x \<longleftrightarrow> holds s x" for x
    unfolding s' using holds_moved [OF sole ab obj, of undefined x] none by simp
  have "sole s'"
    unfolding s' using sole ab obj by (rule sole_put2)
  moreover have "os_calls s' = os_calls s" by (simp add: s')
  ultimately show ?thesis
    using assms(1) unfolding owned_def holds by simp
qed

lemma owned_MoveAssign:
  assumes "owned s G" and "apply_op (MoveAssign a b) s = Some s'"
  shows "owned s' G"
proof (cases "a = b")
  case True
  then have "s' = s"
    using assms(2) by (auto split: option.splits)
  then show ?thesis using assms(1) by simp
next
  case False
  from assms(2) False obtain c d where c: "objects s a = Some c" and d: "objects s b = Some d"
    and s'd: "s' = s\<lparr>objects := (objects s)(a \<mapsto> c\<lparr>h := h d\<rparr>,
                                            b \<mapsto> d\<lparr>h := INVALID_HANDLE_VALUE\<rparr>),
                     os_calls := (if is_valid (h c) then os_calls s @ [CloseHandle (h c)]
                                  else os_calls s)\<rparr>"
    by (cases "objects s a"; cases "objects s b") (auto simp add: CHandle_move_assign_def)
  define y where "y = h c"
  define z where "z = h d"
  have obj_a: "objects s a = Some \<lparr>h = y\<rparr>"
    using c by (simp add: y_def)
  have obj_b: "objects s b = Some \<lparr>h = z\<rparr>"
    using d by (simp add: z_def)
  have s': "s' = s\<lparr>objects := (objects s)(a \<mapsto> \<lparr>h = z\<rparr>, b \<mapsto> \<lparr>h = INVALID_HANDLE_VALUE\<rparr>),
                     os_calls := os_calls s @ (if is_valid y then [CloseHandle y] else [])\<rparr>"
    using s'd by (simp add: y_def z_def CHandle_put)
  have sole: "sole s" using assms(1) by (simp add: owned_def)
  have holds: "holds s' x \<longleftrightarrow> holds s x \<and> x \<noteq> y" for x
    unfolding s' holds_calls using holds_moved [OF sole False obj_b, of y x] obj_a by simp
  have "sole s'"
    unfolding s' sole_calls using sole False obj_b by (rule sole_put2)
  moreover have "closed_handles (os_calls s') = closed_handles (os_calls s) @ (if is_valid y then [y] else [])"
    by (simp add: s')
  moreover have "is_valid y \<Longrightarrow> holds s y"
    using obj_a by (auto simp add: holds_def)
  moreover have "\<not> is_valid y \<Longrightarrow> \<not> holds s y"
    by (simp add: holds_def)
  ultimately show ?thesis
    using assms(1) unfolding owned_def holds
    by auto
qed

lemma owned_step:
  assumes "owned s G" and "apply_op op s = Some s'"
    and "\<forall>x\<in>set (given_handles [op]). is_valid x \<longrightarrow> x \<notin> G"
  shows "owned s' (G \<union> set (filter is_valid (given_handles [op])))"
proof (cases op)
  case (Construct a)
  then show ?thesis using assms owned_Construct by simp
next
  case (ConstructFrom a raw)
  have "G \<union> set (filter is_valid (given_handles [op])) = G \<union> {x. x = raw \<and> is_valid raw}"
    using ConstructFrom by auto
  then show ?thesis
    using assms ConstructFrom owned_ConstructFrom [of s G a raw s'] by simp
next
  case (Destroy a)
  then show ?thesis using assms owned_Destroy by simp
next
  case (AssignHandle a raw)
  have "G \<union> set (filter is_valid (given_handles [op])) = G \<union> {x. x = raw \<and> is_valid raw}"
    using AssignHandle by auto
  then show ?thesis
    using assms AssignHandle owned_AssignHandle [of s G a raw s'] by simp
next
  case (MoveConstruct a b)
  then show ?thesis using assms owned_MoveConstruct by simp
next
  case (MoveAssign a b)
  then show ?thesis using assms owned_MoveAssign by simp
qed

lemma given_handles_Cons:
  "given_handles (op # ops) = given_handles [op] @ given_handles ops"
  by (cases op) simp_all

lemma owned_run:
  assumes "owned s G" and "apply_ops ops s = Some s'"
    and "distinct (filter is_valid (given_handles ops))"
    and "\<forall>x\<in>set (given_handles ops). is_valid x \<longrightarrow> x \<notin> G"
  shows "owned s' (G \<union> set (filter is_valid (given_handles ops)))"
  using assms
proof (induction ops arbitrary: s G)
  case Nil
  then show ?case by simp
next
  case (Cons op ops)
  from Cons.prems(2) obtain s1 where step: "apply_op op s = Some s1"
    and rest: "apply_ops ops s1 = Some s'"
    by (auto split: option.splits)
  let ?G1 = "G \<union> set (filter is_valid (given_handles [op]))"
  have split: "given_handles (op # ops) = given_handles [op] @ given_handles ops"
    by (rule given_handles_Cons)
  have "owned s1 ?G1"
    using Cons.prems(1) step Cons.prems(4) unfolding split by (intro owned_step) auto
  moreover have "distinct (filter is_valid (given_handles ops))"
    using Cons.prems(3) unfolding split by simp
  moreover have "\<forall>x\<in>set (given_handles ops). is_valid x \<longrightarrow> x \<notin> ?G1"
    using Cons.prems(3,4) unfolding split by auto
  ultimately have "owned s' (?G1 \<union> set (filter is_valid (given_handles ops)))"
    using rest by (intro Cons.IH)
  then show ?case
    unfolding split by (simp add: Un_assoc)
qed

lemma owned_no_objects: "owned no_objects {}"
  by (simp add: owned_def no_objects_def holds_def sole_def)

text \<open>
  C8. Assignment and move assignment close the handle held before, if it is valid, and
  then hold the new one; destruction closes the handle exactly if it is valid (neither
  null nor INVALID\_HANDLE\_VALUE); a move leaves INVALID\_HANDLE\_VALUE in the source.
  Hence, for every sequence of operations on wrappers in which each valid raw handle is
  handed to a wrapper once, no handle is closed twice, no held handle is closed, and the
  handles closed or still held are exactly the valid handles handed over: when no wrapper
  is left, each of them has been closed exactly once.
\<close>

theorem CHandle_exclusive_ownership:
  "CHandle_assign this raw cs
     = (\<lparr>h = raw\<rparr>, cs @ (if is_valid (h this) then [CloseHandle (h this)] else []))
   \<and> CHandle_move_assign this other cs
     = ((\<lparr>h = h other\<rparr>, \<lparr>h = INVALID_HANDLE_VALUE\<rparr>),
        cs @ (if is_valid (h this) then [CloseHandle (h this)] else []))
   \<and> CHandle_destroy this cs = cs @ (if is_valid (h this) then [CloseHandle (h this)] else [])
   \<and> CHandle_move other = (\<lparr>h = h other\<rparr>, \<lparr>h = INVALID_HANDLE_VALUE\<rparr>)
   \<and> (is_valid raw \<longleftrightarrow> raw \<noteq> nullptr \<and> raw \<noteq> INVALID_HANDLE_VALUE)
   \<and> (\<forall>ops s. apply_ops ops no_objects = Some s
                \<and> distinct (filter is_valid (given_handles ops))
         \<longrightarrow> distinct (closed_handles (os_calls s))
             \<and> (\<forall>x. holds s x \<longrightarrow> x \<notin> set (closed_handles (os_calls s)))
             \<and> set (closed_handles (os_calls s)) \<union> {x. holds s x}
                 = set (filter is_valid (given_handles ops)))"
proof -
  have run: "distinct (closed_handles (os_calls s))
             \<and> (\<forall>x. holds s x \<longrightarrow> x \<notin> set (closed_handles (os_calls s)))
             \<and> set (closed_handles (os_calls s)) \<union> {x. holds s x}
                 = set (filter is_valid (given_handles ops))"
    if "apply_ops ops no_objects = Some s \<and> distinct (filter is_valid (given_handles ops))"
    for ops s
  proof -
    have "owned s ({} \<union> set (filter is_valid (given_handles ops)))"
      using owned_no_objects that by (intro owned_run) auto
    then show ?thesis
      unfolding owned_def by auto
  qed
  have ops: "CHandle_assign this raw cs
     = (\<lparr>h = raw\<rparr>, cs @ (if is_valid (h this) then [CloseHandle (h this)] else []))"
    "CHandle_move_assign this other cs
     = ((\<lparr>h = h other\<rparr>, \<lparr>h = INVALID_HANDLE_VALUE\<rparr>),
        cs @ (if is_valid (h this) then [CloseHandle (h this)] else []))"
    "CHandle_destroy this cs = cs @ (if is_valid (h this) then [CloseHandle (h this)] else [])"
    "CHandle_move other = (\<lparr>h = h other\<rparr>, \<lparr>h = INVALID_HANDLE_VALUE\<rparr>)"
    "is_valid raw \<longleftrightarrow> raw \<noteq> nullptr \<and> raw \<noteq> INVALID_HANDLE_VALUE"
    by (auto simp add: CHandle_assign_def CHandle_move_assign_def CHandle_destroy_def
          CHandle_move_def CHandle_put is_valid_def)
  show ?thesis
    using ops run by blast
qed

theorem CHandle_exclusive_ownership_witness:
  "\<exists>s. apply_ops example_ops no_objects = Some s
       \<and> closed_handles (os_calls s) = [7, 9]
       \<and> distinct (closed_handles (os_calls s))
       \<and> set (closed_handles (os_calls s)) \<union> {x. holds s x} = {7, 9}"
proof -
  have "map_option (\<lambda>s. closed_handles (os_calls s)) (apply_ops example_ops no_objects)
          = Some [7, 9]"
    by (simp add: example_ops_def no_objects_def CHandle_from_def CHandle_default_def
          CHandle_assign_def CHandle_move_assign_def CHandle_move_def CHandle_destroy_def
          is_valid_def INVALID_HANDLE_VALUE_def nullptr_def)
  then obtain s where s: "apply_ops example_ops no_objects = Some s"
    and closed: "closed_handles (os_calls s) = [7, 9]"
    by auto
  have given: "filter is_valid (given_handles example_ops) = [7, 9]"
    by (simp add: example_ops_def is_valid_def INVALID_HANDLE_VALUE_def nullptr_def)
  then have "distinct (filter is_valid (given_handles example_ops))"
    by simp
  with s have "apply_ops example_ops no_objects = Some s
                \<and> distinct (filter is_valid (given_handles example_ops))"
    by simp
  with CHandle_exclusive_ownership [of "\<lparr>h = 0\<rparr>" 0 "[]" "\<lparr>h = 0\<rparr>", THEN conjunct2, THEN conjunct2,
      THEN conjunct2, THEN conjunct2, THEN conjunct2, THEN spec, THEN spec, THEN mp]
  have "distinct (closed_handles (os_calls s))
        \<and> (\<forall>x. holds s x \<longrightarrow> x \<notin> set (closed_handles (os_calls s)))
        \<and> set (closed_handles (os_calls s)) \<union> {x. holds s x}
            = set (filter is_valid (given_handles example_ops))"
    by this
  then show ?thesis
    using s closed given by auto
qed

end
